theory Spec2Isabelle
  imports Main
begin

section \<open>The relational store\<close>

text \<open>
  The three tables of \<^verbatim>\<open>initializeDatabase\<close> (users, events, bookings). A table is the
  list of its rows in insertion order; every \<^verbatim>\<open>SERIAL\<close> column has its sequence in the
  state. An \<^verbatim>\<open>INTEGER\<close> column holds an \<open>int\<close> of 32 bits (\<open>in_int4\<close>): a statement that
  would store a value outside this range raises an error and writes nothing. A
  \<^verbatim>\<open>VARCHAR(100)\<close> column holds a \<open>string\<close> of at most 100 characters (\<open>varchar100\<close>).
  \<^verbatim>\<open>TIMESTAMP\<close> columns are seconds on a clock that each inserting request reads. The
  stored password is the bcrypt digest (60 characters, within the column's 100),
  modelled symbolically by the salt and the text that was hashed. The ids that
  requests carry are \<^verbatim>\<open>INTEGER\<close> values.
\<close>

datatype hashed = Hashed nat string

record user_row =
  u_id :: int
  u_name :: string
  u_email :: string
  u_password :: hashed
  u_created_at :: nat

record event_row =
  e_id :: int
  e_title :: string
  e_description :: "string option"
  e_date :: nat
  e_location :: string
  e_available_seats :: int
  e_user_id :: int
  e_created_at :: nat

record booking_row =
  b_id :: int
  b_event_id :: int
  b_user_id :: int
  b_seats :: int
  b_created_at :: nat

record db =
  users :: "user_row list"
  events :: "event_row list"
  bookings :: "booking_row list"
  users_id_seq :: int
  events_id_seq :: int
  bookings_id_seq :: int

definition empty_db :: db where
  "empty_db = \<lparr>users = [], events = [], bookings = [],
                users_id_seq = 0, events_id_seq = 0, bookings_id_seq = 0\<rparr>"

text \<open>
  What a statement can raise: the constraint violations of the schema and the errors
  of the column types, with the SQLSTATE code that \<^verbatim>\<open>err.code\<close> carries.
\<close>

datatype sql_error =
    UniqueViolation
  | ForeignKeyViolation
  | NotNullViolation
  | NumericValueOutOfRange
  | StringDataRightTruncation

fun sqlstate :: "sql_error \<Rightarrow> string" where
  "sqlstate UniqueViolation = ''23505''"
| "sqlstate ForeignKeyViolation = ''23503''"
| "sqlstate NotNullViolation = ''23502''"
| "sqlstate NumericValueOutOfRange = ''22003''"
| "sqlstate StringDataRightTruncation = ''22001''"

text \<open>The range of \<^verbatim>\<open>INTEGER\<close>.\<close>

definition in_int4 :: "int \<Rightarrow> bool" where
  "in_int4 n \<longleftrightarrow> - 2147483648 \<le> n \<and> n \<le> 2147483647"

text \<open>
  The value a \<^verbatim>\<open>VARCHAR(100)\<close> column stores for a string: the string itself when it
  has at most 100 characters; its first 100 characters when all the others are
  spaces; otherwise the assignment raises \<^verbatim>\<open>22001\<close> (\<open>None\<close>).
\<close>

definition varchar100 :: "string \<Rightarrow> string option" where
  "varchar100 x =
     (if length x \<le> 100 then Some x
      else if list_all (\<lambda>c. c = CHR '' '') (drop 100 x) then Some (take 100 x)
      else None)"

text \<open>A response that carries an error: the HTTP status and the \<^verbatim>\<open>error\<close> message.\<close>

type_synonym http_error = "nat \<times> string"

subsection \<open>Queries used by the booking handlers\<close>

text \<open>\<^verbatim>\<open>SELECT id FROM bookings WHERE event_id = $1 AND user_id = $2\<close>\<close>

definition bookings_of :: "db \<Rightarrow> int \<Rightarrow> int \<Rightarrow> booking_row list" where
  "bookings_of s event_id user_id =
     filter (\<lambda>b. b_event_id b = event_id \<and> b_user_id b = user_id) (bookings s)"

text \<open>\<^verbatim>\<open>SELECT * FROM bookings WHERE id = $1 AND user_id = $2\<close>\<close>

definition booking_by_id :: "db \<Rightarrow> int \<Rightarrow> int \<Rightarrow> booking_row list" where
  "booking_by_id s booking_id user_id =
     filter (\<lambda>b. b_id b = booking_id \<and> b_user_id b = user_id) (bookings s)"

text \<open>\<^verbatim>\<open>SELECT * FROM events WHERE id = $1\<close>\<close>

definition event_by_id :: "db \<Rightarrow> int \<Rightarrow> event_row list" where
  "event_by_id s event_id = filter (\<lambda>e. e_id e = event_id) (events s)"

text \<open>
  \<^verbatim>\<open>INSERT INTO bookings (event_id, user_id, seats) VALUES ($1, $2, $3) RETURNING *\<close>.
  The id is drawn from the sequence first (a failed insert does not give it back), then
  the row is checked against \<^verbatim>\<open>NOT NULL\<close>, the primary key, \<^verbatim>\<open>UNIQUE (event_id, user_id)\<close>
  and the two foreign keys. The handler of \<^verbatim>\<open>server.js\<close> reaches this
  statement with seats between 1 and an \<^verbatim>\<open>available_seats\<close> it has read from the
  store, which are within \<^verbatim>\<open>INTEGER\<close>; the range of the seats is not checked here.
\<close>

definition insert_booking ::
  "int \<Rightarrow> int \<Rightarrow> int option \<Rightarrow> nat \<Rightarrow> db \<Rightarrow> (sql_error + booking_row) \<times> db" where
  "insert_booking event_id user_id seats now s =
     (let new_id = bookings_id_seq s + 1;
          s1 = s\<lparr>bookings_id_seq := new_id\<rparr>
      in case seats of
           None \<Rightarrow> (Inl NotNullViolation, s1)
         | Some k \<Rightarrow>
             if new_id \<in> b_id ` set (bookings s) then (Inl UniqueViolation, s1)
             else if bookings_of s event_id user_id \<noteq> [] then (Inl UniqueViolation, s1)
             else if event_id \<notin> e_id ` set (events s) \<or> user_id \<notin> u_id ` set (users s)
               then (Inl ForeignKeyViolation, s1)
             else
               (let row = \<lparr>b_id = new_id, b_event_id = event_id, b_user_id = user_id,
                           b_seats = k, b_created_at = now\<rparr>
                in (Inr row, s1\<lparr>bookings := bookings s @ [row]\<rparr>)))"

text \<open>The store with \<open>d\<close> added to the available seats of the events with the given id.\<close>

definition seats_plus :: "int \<Rightarrow> int \<Rightarrow> db \<Rightarrow> db" where
  "seats_plus d event_id s =
     s\<lparr>events := map (\<lambda>e. if e_id e = event_id
                             then e\<lparr>e_available_seats := e_available_seats e + d\<rparr> else e)
                      (events s)\<rparr>"

text \<open>
  \<^verbatim>\<open>UPDATE events SET available_seats = available_seats - $1 WHERE id = $2\<close>. The
  parameter is an \<^verbatim>\<open>INTEGER\<close>, and so is the difference in every row the statement
  changes; otherwise it raises \<^verbatim>\<open>22003\<close> and changes no row.
\<close>

definition take_seats :: "int \<Rightarrow> int \<Rightarrow> db \<Rightarrow> sql_error + db" where
  "take_seats n event_id s =
     (if in_int4 n
         \<and> list_all (\<lambda>e. in_int4 (e_available_seats e - n)) (event_by_id s event_id)
        then Inr (seats_plus (- n) event_id s)
      else Inl NumericValueOutOfRange)"

text \<open>\<^verbatim>\<open>UPDATE events SET available_seats = available_seats + $1 WHERE id = $2\<close>, with
  the same range checks.\<close>

definition return_seats :: "int \<Rightarrow> int \<Rightarrow> db \<Rightarrow> sql_error + db" where
  "return_seats n event_id s =
     (if in_int4 n
         \<and> list_all (\<lambda>e. in_int4 (e_available_seats e + n)) (event_by_id s event_id)
        then Inr (seats_plus n event_id s)
      else Inl NumericValueOutOfRange)"

text \<open>\<^verbatim>\<open>UPDATE bookings SET seats = $1 WHERE id = $2 RETURNING *\<close>: the rows it returns
  and the store afterwards, or \<^verbatim>\<open>22003\<close> when the seats are no \<^verbatim>\<open>INTEGER\<close>.\<close>

definition set_booking_seats ::
  "int \<Rightarrow> int \<Rightarrow> db \<Rightarrow> sql_error + booking_row list \<times> db" where
  "set_booking_seats n booking_id s =
     (if in_int4 n
        then Inr (map (\<lambda>b. b\<lparr>b_seats := n\<rparr>) (filter (\<lambda>b. b_id b = booking_id) (bookings s)),
                  s\<lparr>bookings := map (\<lambda>b. if b_id b = booking_id then b\<lparr>b_seats := n\<rparr> else b)
                                    (bookings s)\<rparr>)
      else Inl NumericValueOutOfRange)"

text \<open>\<^verbatim>\<open>DELETE FROM bookings WHERE id = $1 AND user_id = $2\<close>\<close>

definition delete_booking :: "int \<Rightarrow> int \<Rightarrow> db \<Rightarrow> db" where
  "delete_booking booking_id user_id s =
     s\<lparr>bookings := filter (\<lambda>b. \<not> (b_id b = booking_id \<and> b_user_id b = user_id))
                           (bookings s)\<rparr>"

section \<open>Booking handlers\<close>

text \<open>
  Every handler below runs behind \<^verbatim>\<open>authenticateToken\<close>; \<open>user_id\<close> is \<^verbatim>\<open>req.user.id\<close>.
  A handler returns its response and the store it leaves. The \<^verbatim>\<open>seats\<close> field of a
  request body is an integer, or \<open>None\<close> when the body has none; \<^verbatim>\<open>!seats\<close> holds for
  a missing field and for \<open>0\<close>. An exception of a statement is caught by the handler's
  \<^verbatim>\<open>catch\<close>, which answers 500 and leaves what earlier statements wrote: no handler
  opens a transaction. Each function below is the handler run on its own, its
  statements one after the other with no statement of another request in between;
  how the statements of several requests interleave is the subject of the section on
  the service as a transition system.
\<close>

text \<open>\<^verbatim>\<open>POST /api/bookings\<close> of \<^verbatim>\<open>src/server.js\<close>.\<close>

definition create_booking ::
  "int \<Rightarrow> int \<Rightarrow> int option \<Rightarrow> nat \<Rightarrow> db \<Rightarrow> (http_error + booking_row) \<times> db" where
  "create_booking user_id event_id seats now s =
     (case seats of
        None \<Rightarrow> (Inl (400, ''Number of seats must be positive''), s)
      | Some k \<Rightarrow>
          if k = 0 \<or> k \<le> 0 then (Inl (400, ''Number of seats must be positive''), s)
          else if bookings_of s event_id user_id \<noteq> []
            then (Inl (400, ''You have already booked this event''), s)
          else
            (case event_by_id s event_id of
               [] \<Rightarrow> (Inl (404, ''Event not found''), s)
             | e # _ \<Rightarrow>
                 if e_available_seats e < k
                   then (Inl (400, ''Not enough seats available''), s)
                 else
                   (case insert_booking event_id user_id (Some k) now s of
                      (Inl err, s1) \<Rightarrow> (Inl (500, ''Failed to create booking''), s1)
                    | (Inr row, s1) \<Rightarrow>
                        (case take_seats k event_id s1 of
                           Inl err \<Rightarrow> (Inl (500, ''Failed to create booking''), s1)
                         | Inr s2 \<Rightarrow> (Inr row, s2)))))"

text \<open>
  \<^verbatim>\<open>POST /api/bookings\<close> of the simpler variant (\<^verbatim>\<open>src/unnamed/part_000\<close>): the same
  statements, without the check of \<^verbatim>\<open>seats\<close>. A comparison of a number with a missing
  \<^verbatim>\<open>seats\<close> is false, so the handler goes on to the insert, which then violates
  \<^verbatim>\<open>NOT NULL\<close>.
\<close>

definition create_booking_simple ::
  "int \<Rightarrow> int \<Rightarrow> int option \<Rightarrow> nat \<Rightarrow> db \<Rightarrow> (http_error + booking_row) \<times> db" where
  "create_booking_simple user_id event_id seats now s =
     (if bookings_of s event_id user_id \<noteq> []
        then (Inl (400, ''You have already booked this event''), s)
      else
        (case event_by_id s event_id of
           [] \<Rightarrow> (Inl (404, ''Event not found''), s)
         | e # _ \<Rightarrow>
             if (case seats of None \<Rightarrow> False | Some k \<Rightarrow> e_available_seats e < k)
               then (Inl (400, ''Not enough seats available''), s)
             else
               (case insert_booking event_id user_id seats now s of
                  (Inl err, s1) \<Rightarrow> (Inl (500, ''Failed to create booking''), s1)
                | (Inr row, s1) \<Rightarrow>
                    (case seats of
                       None \<Rightarrow> (Inr row, s1)
                     | Some k \<Rightarrow>
                         (case take_seats k event_id s1 of
                            Inl err \<Rightarrow> (Inl (500, ''Failed to create booking''), s1)
                          | Inr s2 \<Rightarrow> (Inr row, s2))))))"

text \<open>
  \<^verbatim>\<open>PUT /api/bookings/:id\<close>. \<^verbatim>\<open>event.rows[0]\<close> of an empty result is \<^verbatim>\<open>undefined\<close>,
  and reading its field throws. The body of the answer is \<^verbatim>\<open>result.rows[0]\<close>, absent
  when the update returned no row.
\<close>

definition update_booking ::
  "int \<Rightarrow> int \<Rightarrow> int option \<Rightarrow> db \<Rightarrow> (http_error + booking_row option) \<times> db" where
  "update_booking user_id booking_id seats s =
     (case seats of
        None \<Rightarrow> (Inl (400, ''Number of seats must be positive''), s)
      | Some k \<Rightarrow>
          if k = 0 \<or> k \<le> 0 then (Inl (400, ''Number of seats must be positive''), s)
          else
            (case booking_by_id s booking_id user_id of
               [] \<Rightarrow> (Inl (404, ''Booking not found or not authorized''), s)
             | b # _ \<Rightarrow>
                 (let currentSeats = b_seats b;
                      eventId = b_event_id b;
                      seatDifference = k - currentSeats
                  in case event_by_id s eventId of
                       [] \<Rightarrow> (Inl (500, ''Failed to update booking''), s)
                     | e # _ \<Rightarrow>
                         if e_available_seats e < seatDifference
                           then (Inl (400, ''Not enough seats available''), s)
                         else
                           (case set_booking_seats k booking_id s of
                              Inl err \<Rightarrow> (Inl (500, ''Failed to update booking''), s)
                            | Inr (rows, s1) \<Rightarrow>
                                (case take_seats seatDifference eventId s1 of
                                   Inl err \<Rightarrow> (Inl (500, ''Failed to update booking''), s1)
                                 | Inr s2 \<Rightarrow>
                                     (Inr (case rows of [] \<Rightarrow> None | r # _ \<Rightarrow> Some r),
                                      s2))))))"

text \<open>\<^verbatim>\<open>DELETE /api/bookings/:id\<close>\<close>

definition cancel_booking :: "int \<Rightarrow> int \<Rightarrow> db \<Rightarrow> (http_error + string) \<times> db" where
  "cancel_booking user_id booking_id s =
     (case booking_by_id s booking_id user_id of
        [] \<Rightarrow> (Inl (404, ''Booking not found or not authorized''), s)
      | b # _ \<Rightarrow>
          (let s1 = delete_booking booking_id user_id s
           in case return_seats (b_seats b) (b_event_id b) s1 of
                Inl err \<Rightarrow> (Inl (500, ''Failed to cancel booking''), s1)
              | Inr s2 \<Rightarrow> (Inr ''Booking cancelled successfully'', s2)))"

section \<open>Registration, login and tokens\<close>

text \<open>
  \<^verbatim>\<open>bcryptjs\<close> and \<^verbatim>\<open>jsonwebtoken\<close> are libraries, modelled symbolically: a digest remembers
  its salt and the text hashed, and \<^verbatim>\<open>compare\<close> accepts exactly that text; a token is its
  payload together with the key that signed it, and \<^verbatim>\<open>verify\<close> accepts it under the same
  key before its expiry. The salt and the clock are inputs of the request. The
  \<^verbatim>\<open>email\<close>, \<^verbatim>\<open>password\<close> and \<^verbatim>\<open>name\<close> fields of a request body are strings.
\<close>

definition bcrypt_hash :: "string \<Rightarrow> nat \<Rightarrow> hashed" where
  "bcrypt_hash password salt = Hashed salt password"

fun bcrypt_compare :: "string \<Rightarrow> hashed \<Rightarrow> bool" where
  "bcrypt_compare password (Hashed salt p) = (p = password)"

record jwt_payload =
  jwt_id :: int
  jwt_email :: string
  jwt_iat :: nat
  jwt_exp :: nat

datatype jwt = Jwt jwt_payload string

text \<open>\<^verbatim>\<open>jwt.sign({ id, email }, JWT_SECRET, { expiresIn: '1h' })\<close>\<close>

definition jwt_sign :: "int \<Rightarrow> string \<Rightarrow> string \<Rightarrow> nat \<Rightarrow> jwt" where
  "jwt_sign uid email secret now =
     Jwt \<lparr>jwt_id = uid, jwt_email = email, jwt_iat = now, jwt_exp = now + 3600\<rparr> secret"

fun jwt_decode :: "jwt \<Rightarrow> jwt_payload" where
  "jwt_decode (Jwt payload key) = payload"

fun jwt_verify :: "jwt \<Rightarrow> string \<Rightarrow> nat \<Rightarrow> jwt_payload option" where
  "jwt_verify (Jwt payload key) secret now =
     (if key \<noteq> secret then None
      else if jwt_exp payload \<le> now then None
      else Some payload)"

text \<open>\<^verbatim>\<open>authenticateToken\<close>: the status it answers with, or the claims it puts in
  \<^verbatim>\<open>req.user\<close>. The token is the second word of the \<^verbatim>\<open>Authorization\<close> header,
  \<open>None\<close> when the header or that word is missing.\<close>

definition authenticateToken :: "jwt option \<Rightarrow> string \<Rightarrow> nat \<Rightarrow> nat + jwt_payload" where
  "authenticateToken token secret now =
     (case token of
        None \<Rightarrow> Inl 401
      | Some t \<Rightarrow> (case jwt_verify t secret now of None \<Rightarrow> Inl 403 | Some user \<Rightarrow> Inr user))"

text \<open>
  \<^verbatim>\<open>INSERT INTO users (name, email, password) VALUES ($1, $2, $3) RETURNING id, name, email\<close>,
  checked against the primary key and \<^verbatim>\<open>UNIQUE\<close> on \<^verbatim>\<open>email\<close>. A name or an email
  that does not fit its \<^verbatim>\<open>VARCHAR(100)\<close> column raises \<^verbatim>\<open>22001\<close> before the statement
  runs.
\<close>

definition insert_user ::
  "string \<Rightarrow> string \<Rightarrow> hashed \<Rightarrow> nat \<Rightarrow> db \<Rightarrow> (sql_error + user_row) \<times> db" where
  "insert_user name email hashedPassword now s =
     (case varchar100 name of
        None \<Rightarrow> (Inl StringDataRightTruncation, s)
      | Some name' \<Rightarrow>
          (case varchar100 email of
             None \<Rightarrow> (Inl StringDataRightTruncation, s)
           | Some email' \<Rightarrow>
               (let new_id = users_id_seq s + 1;
                    s1 = s\<lparr>users_id_seq := new_id\<rparr>
                in if new_id \<in> u_id ` set (users s) then (Inl UniqueViolation, s1)
                   else if email' \<in> u_email ` set (users s) then (Inl UniqueViolation, s1)
                   else
                     (let row = \<lparr>u_id = new_id, u_name = name', u_email = email',
                                 u_password = hashedPassword, u_created_at = now\<rparr>
                      in (Inr row, s1\<lparr>users := users s @ [row]\<rparr>)))))"

text \<open>\<^verbatim>\<open>POST /api/register\<close>\<close>

definition register ::
  "string \<Rightarrow> string \<Rightarrow> string \<Rightarrow> nat \<Rightarrow> nat \<Rightarrow> db
     \<Rightarrow> (http_error + int \<times> string \<times> string) \<times> db" where
  "register name email password salt now s =
     (let hashedPassword = bcrypt_hash password salt
      in case insert_user name email hashedPassword now s of
           (Inl err, s1) \<Rightarrow>
             (if sqlstate err = ''23505'' then Inl (400, ''Email already exists'')
              else Inl (500, ''Registration failed''), s1)
         | (Inr row, s1) \<Rightarrow> (Inr (u_id row, u_name row, u_email row), s1))"

text \<open>\<^verbatim>\<open>POST /api/login\<close>: it only reads the store. The answer carries the token and
  the user's id, name and email.\<close>

definition login ::
  "string \<Rightarrow> string \<Rightarrow> string \<Rightarrow> nat \<Rightarrow> db
     \<Rightarrow> http_error + jwt \<times> int \<times> string \<times> string" where
  "login email password secret now s =
     (case filter (\<lambda>u. u_email u = email) (users s) of
        [] \<Rightarrow> Inl (401, ''Invalid credentials'')
      | u # _ \<Rightarrow>
          (let isValidPassword = bcrypt_compare password (u_password u)
           in if \<not> isValidPassword then Inl (401, ''Invalid credentials'')
              else Inr (jwt_sign (u_id u) (u_email u) secret now,
                        u_id u, u_name u, u_email u)))"

section \<open>Profile update\<close>

text \<open>
  \<^verbatim>\<open>UPDATE users SET name = $1, email = $2 [, password = $3] WHERE id = $n RETURNING id, name, email\<close>:
  the handler builds the statement with or without the password column. It violates
  \<^verbatim>\<open>UNIQUE\<close> on \<^verbatim>\<open>email\<close> when it changes a row and another row holds the new email. A
  name or an email that does not fit its \<^verbatim>\<open>VARCHAR(100)\<close> column raises \<^verbatim>\<open>22001\<close>
  before the statement runs.
\<close>

definition set_profile :: "string \<Rightarrow> string \<Rightarrow> hashed option \<Rightarrow> user_row \<Rightarrow> user_row" where
  "set_profile name email hashedPassword u =
     (case hashedPassword of
        None \<Rightarrow> u\<lparr>u_name := name, u_email := email\<rparr>
      | Some h \<Rightarrow> u\<lparr>u_name := name, u_email := email, u_password := h\<rparr>)"

definition update_user ::
  "string \<Rightarrow> string \<Rightarrow> hashed option \<Rightarrow> int \<Rightarrow> db \<Rightarrow> (sql_error + user_row list) \<times> db" where
  "update_user name email hashedPassword uid s =
     (case varchar100 name of
        None \<Rightarrow> (Inl StringDataRightTruncation, s)
      | Some name' \<Rightarrow>
          (case varchar100 email of
             None \<Rightarrow> (Inl StringDataRightTruncation, s)
           | Some email' \<Rightarrow>
               if (\<exists>u \<in> set (users s). u_id u = uid)
                    \<and> (\<exists>u \<in> set (users s). u_id u \<noteq> uid \<and> u_email u = email')
                 then (Inl UniqueViolation, s)
               else (Inr (map (set_profile name' email' hashedPassword)
                              (filter (\<lambda>u. u_id u = uid) (users s))),
                     s\<lparr>users := map (\<lambda>u. if u_id u = uid
                                            then set_profile name' email' hashedPassword u
                                            else u)
                                     (users s)\<rparr>)))"

text \<open>
  \<^verbatim>\<open>PUT /api/profile\<close>, the same text in both variants. \<^verbatim>\<open>if (password)\<close> holds for a
  password field that is present and not the empty string.
\<close>

definition update_profile ::
  "int \<Rightarrow> string \<Rightarrow> string \<Rightarrow> string option \<Rightarrow> nat \<Rightarrow> db
     \<Rightarrow> (http_error + int \<times> string \<times> string) \<times> db" where
  "update_profile user_id name email password salt s =
     (let hashedPassword =
            (case password of
               None \<Rightarrow> None
             | Some p \<Rightarrow> if p = [] then None else Some (bcrypt_hash p salt))
      in case update_user name email hashedPassword user_id s of
           (Inl err, s1) \<Rightarrow>
             (if sqlstate err = ''23505'' then Inl (400, ''Email already exists'')
              else Inl (500, ''Failed to update profile''), s1)
         | (Inr rows, s1) \<Rightarrow>
             (case rows of
                [] \<Rightarrow> (Inl (404, ''User not found''), s1)
              | r # _ \<Rightarrow> (Inr (u_id r, u_name r, u_email r), s1)))"

section \<open>Event and room handlers\<close>

text \<open>The fields of an event in a request body (\<^verbatim>\<open>description\<close> is optional).\<close>

record event_fields =
  f_title :: string
  f_description :: "string option"
  f_date :: nat
  f_location :: string
  f_available_seats :: int

text \<open>
  \<^verbatim>\<open>INSERT INTO events (title, description, date, location, available_seats, user_id) VALUES (...) RETURNING *\<close>,
  checked against the primary key and the foreign key to \<^verbatim>\<open>users\<close>. Seats outside
  \<^verbatim>\<open>INTEGER\<close> raise \<^verbatim>\<open>22003\<close> and a title or location that does not fit its
  \<^verbatim>\<open>VARCHAR(100)\<close> column raises \<^verbatim>\<open>22001\<close>, both before the statement runs.
\<close>

definition event_columns :: "event_fields \<Rightarrow> sql_error + event_fields" where
  "event_columns f =
     (if \<not> in_int4 (f_available_seats f) then Inl NumericValueOutOfRange
      else
        (case varchar100 (f_title f) of
           None \<Rightarrow> Inl StringDataRightTruncation
         | Some title \<Rightarrow>
             (case varchar100 (f_location f) of
                None \<Rightarrow> Inl StringDataRightTruncation
              | Some location \<Rightarrow> Inr (f\<lparr>f_title := title, f_location := location\<rparr>))))"

definition insert_event ::
  "event_fields \<Rightarrow> int \<Rightarrow> nat \<Rightarrow> db \<Rightarrow> (sql_error + event_row) \<times> db" where
  "insert_event f0 user_id now s =
     (case event_columns f0 of
        Inl err \<Rightarrow> (Inl err, s)
      | Inr f \<Rightarrow>
          (let new_id = events_id_seq s + 1;
               s1 = s\<lparr>events_id_seq := new_id\<rparr>
           in if new_id \<in> e_id ` set (events s) then (Inl UniqueViolation, s1)
              else if user_id \<notin> u_id ` set (users s) then (Inl ForeignKeyViolation, s1)
              else
                (let row = \<lparr>e_id = new_id, e_title = f_title f,
                            e_description = f_description f, e_date = f_date f,
                            e_location = f_location f,
                            e_available_seats = f_available_seats f, e_user_id = user_id,
                            e_created_at = now\<rparr>
                 in (Inr row, s1\<lparr>events := events s @ [row]\<rparr>))))"

text \<open>\<^verbatim>\<open>POST /api/events\<close>\<close>

definition create_event ::
  "int \<Rightarrow> event_fields \<Rightarrow> nat \<Rightarrow> db \<Rightarrow> (http_error + event_row) \<times> db" where
  "create_event user_id f now s =
     (case insert_event f user_id now s of
        (Inl err, s1) \<Rightarrow> (Inl (500, ''Failed to create event''), s1)
      | (Inr row, s1) \<Rightarrow> (Inr row, s1))"

text \<open>\<^verbatim>\<open>UPDATE events SET title = $1, description = $2, date = $3, location = $4, available_seats = $5 WHERE id = $6 AND user_id = $7 RETURNING *\<close>,
  with the checks of the column types that the insert has.\<close>

definition set_event :: "event_fields \<Rightarrow> event_row \<Rightarrow> event_row" where
  "set_event f e =
     e\<lparr>e_title := f_title f, e_description := f_description f, e_date := f_date f,
       e_location := f_location f, e_available_seats := f_available_seats f\<rparr>"

definition update_events ::
  "event_fields \<Rightarrow> int \<Rightarrow> int \<Rightarrow> db \<Rightarrow> sql_error + event_row list \<times> db" where
  "update_events f0 event_id user_id s =
     (case event_columns f0 of
        Inl err \<Rightarrow> Inl err
      | Inr f \<Rightarrow>
          Inr (map (set_event f)
                   (filter (\<lambda>e. e_id e = event_id \<and> e_user_id e = user_id) (events s)),
               s\<lparr>events := map (\<lambda>e. if e_id e = event_id \<and> e_user_id e = user_id
                                       then set_event f e else e) (events s)\<rparr>))"

text \<open>\<^verbatim>\<open>PUT /api/events/:id\<close>\<close>

definition update_event ::
  "int \<Rightarrow> int \<Rightarrow> event_fields \<Rightarrow> db \<Rightarrow> (http_error + event_row) \<times> db" where
  "update_event user_id event_id f s =
     (case update_events f event_id user_id s of
        Inl err \<Rightarrow> (Inl (500, ''Failed to update event''), s)
      | Inr (rows, s1) \<Rightarrow>
          (case rows of
             [] \<Rightarrow> (Inl (404, ''Event not found or not authorized''), s1)
           | r # _ \<Rightarrow> (Inr r, s1)))"

text \<open>
  \<^verbatim>\<open>DELETE FROM events WHERE ... RETURNING *\<close> for a row condition \<open>P\<close>. The foreign key
  of \<^verbatim>\<open>bookings\<close> has no \<^verbatim>\<open>ON DELETE\<close> action, so the statement fails while a booking
  refers to a row it would delete.
\<close>

definition delete_events ::
  "(event_row \<Rightarrow> bool) \<Rightarrow> db \<Rightarrow> (sql_error + event_row list) \<times> db" where
  "delete_events P s =
     (let rows = filter P (events s)
      in if \<exists>b \<in> set (bookings s). b_event_id b \<in> e_id ` set rows
           then (Inl ForeignKeyViolation, s)
         else (Inr rows, s\<lparr>events := filter (\<lambda>e. \<not> P e) (events s)\<rparr>))"

text \<open>\<^verbatim>\<open>DELETE FROM bookings WHERE event_id = $1\<close>\<close>

definition delete_bookings_of_event :: "int \<Rightarrow> db \<Rightarrow> db" where
  "delete_bookings_of_event event_id s =
     s\<lparr>bookings := filter (\<lambda>b. b_event_id b \<noteq> event_id) (bookings s)\<rparr>"

text \<open>\<^verbatim>\<open>DELETE /api/events/:id\<close>\<close>

definition delete_event :: "int \<Rightarrow> int \<Rightarrow> db \<Rightarrow> (http_error + string) \<times> db" where
  "delete_event user_id event_id s =
     (let s1 = delete_bookings_of_event event_id s
      in case delete_events (\<lambda>e. e_id e = event_id \<and> e_user_id e = user_id) s1 of
           (Inl err, s2) \<Rightarrow> (Inl (500, ''Failed to delete event''), s2)
         | (Inr rows, s2) \<Rightarrow>
             (case rows of
                [] \<Rightarrow> (Inl (404, ''Event not found or not authorized''), s2)
              | _ # _ \<Rightarrow> (Inr ''Event and associated bookings deleted successfully'', s2)))"

text \<open>\<^verbatim>\<open>!name\<close> for a field of the body that is a string or missing.\<close>

fun falsy :: "string option \<Rightarrow> bool" where
  "falsy None = True"
| "falsy (Some x) = (x = [])"

text \<open>\<^verbatim>\<open>UPDATE events SET location = $1 WHERE location = $2 AND user_id = $3 RETURNING location\<close>:
  the number of rows it changed and the store afterwards, or \<^verbatim>\<open>22001\<close> when the new
  name does not fit the column.\<close>

definition rename_location :: "string \<Rightarrow> string \<Rightarrow> int \<Rightarrow> db \<Rightarrow> sql_error + nat \<times> db" where
  "rename_location newName oldName user_id s =
     (case varchar100 newName of
        None \<Rightarrow> Inl StringDataRightTruncation
      | Some name \<Rightarrow>
          Inr (length (filter (\<lambda>e. e_location e = oldName \<and> e_user_id e = user_id) (events s)),
               s\<lparr>events := map (\<lambda>e. if e_location e = oldName \<and> e_user_id e = user_id
                                       then e\<lparr>e_location := name\<rparr> else e) (events s)\<rparr>))"

text \<open>\<^verbatim>\<open>POST /api/rooms\<close>\<close>

definition update_room ::
  "int \<Rightarrow> string option \<Rightarrow> string option \<Rightarrow> db \<Rightarrow> (http_error + string \<times> string) \<times> db" where
  "update_room user_id oldName newName s =
     (if falsy oldName \<or> falsy newName
        then (Inl (400, ''Both oldName and newName are required''), s)
      else
        (case (oldName, newName) of
           (Some old, Some new) \<Rightarrow>
             (case rename_location new old user_id s of
                Inl err \<Rightarrow> (Inl (500, ''Failed to update room''), s)
              | Inr (rowCount, s1) \<Rightarrow>
                  if rowCount = 0
                    then (Inl (404, ''No rooms found with that name or not authorized''), s1)
                  else (Inr (''Room updated successfully'', new), s1))
         | _ \<Rightarrow> (Inl (400, ''Both oldName and newName are required''), s)))"

text \<open>\<^verbatim>\<open>DELETE FROM bookings WHERE event_id IN (SELECT id FROM events WHERE location = $1 AND user_id = $2)\<close>\<close>

definition delete_bookings_of_room :: "string \<Rightarrow> int \<Rightarrow> db \<Rightarrow> db" where
  "delete_bookings_of_room roomName user_id s =
     s\<lparr>bookings :=
         filter (\<lambda>b. b_event_id b \<notin>
                        e_id ` set (filter (\<lambda>e. e_location e = roomName \<and> e_user_id e = user_id)
                                           (events s)))
                (bookings s)\<rparr>"

text \<open>\<^verbatim>\<open>DELETE /api/rooms/:name\<close>\<close>

definition delete_room :: "int \<Rightarrow> string \<Rightarrow> db \<Rightarrow> (http_error + string) \<times> db" where
  "delete_room user_id roomName s =
     (let s1 = delete_bookings_of_room roomName user_id s
      in case delete_events (\<lambda>e. e_location e = roomName \<and> e_user_id e = user_id) s1 of
           (Inl err, s2) \<Rightarrow> (Inl (500, ''Failed to delete room''), s2)
         | (Inr rows, s2) \<Rightarrow>
             if length rows = 0 then (Inl (404, ''Room not found or not authorized''), s2)
             else (Inr ''Room and all associated events deleted successfully'', s2))"

section \<open>The service as a transition system\<close>

text \<open>
  The requests that write to the store, each with the id of the authenticated user
  (registration has none). The handlers that only read (login, profile, dashboard,
  the listings) leave every state as it is. A request may carry any user id, so the
  reachable states include all those the service reaches with the tokens it has
  issued.
\<close>

datatype request =
    Register string string string nat nat
  | UpdateProfile int string string "string option" nat
  | UpdateRoom int "string option" "string option"
  | DeleteRoom int string
  | CreateEvent int event_fields nat
  | UpdateEvent int int event_fields
  | DeleteEvent int int
  | CreateBooking int int "int option" nat
  | UpdateBooking int int "int option"
  | CancelBooking int int

text \<open>The store after a request is served on its own: the handler runs from its first
  statement to its answer with no statement of another request in between.\<close>

fun serve :: "request \<Rightarrow> db \<Rightarrow> db" where
  "serve (Register name email password salt now) s =
     snd (register name email password salt now s)"
| "serve (UpdateProfile uid name email password salt) s =
     snd (update_profile uid name email password salt s)"
| "serve (UpdateRoom uid oldName newName) s = snd (update_room uid oldName newName s)"
| "serve (DeleteRoom uid roomName) s = snd (delete_room uid roomName s)"
| "serve (CreateEvent uid f now) s = snd (create_event uid f now s)"
| "serve (UpdateEvent uid event_id f) s = snd (update_event uid event_id f s)"
| "serve (DeleteEvent uid event_id) s = snd (delete_event uid event_id s)"
| "serve (CreateBooking uid event_id seats now) s =
     snd (create_booking uid event_id seats now s)"
| "serve (UpdateBooking uid booking_id seats) s = snd (update_booking uid booking_id seats s)"
| "serve (CancelBooking uid booking_id) s = snd (cancel_booking uid booking_id s)"

text \<open>The store after a sequence of requests, served one after the other.\<close>

fun run :: "request list \<Rightarrow> db \<Rightarrow> db" where
  "run [] s = s"
| "run (r # rs) s = run rs (serve r s)"

fun is_booking_op :: "request \<Rightarrow> bool" where
  "is_booking_op (CreateBooking uid event_id seats now) = True"
| "is_booking_op (UpdateBooking uid booking_id seats) = True"
| "is_booking_op (CancelBooking uid booking_id) = True"
| "is_booking_op r = False"

subsection \<open>Requests in flight\<close>

text \<open>
  The runtime serves requests concurrently: a handler gives up control at every
  \<^verbatim>\<open>await pool.query\<close>, and the statements of other requests may run before it goes on.
  A task is a handler between two statements: the statement it will run next and the
  local variables it has. A handler with a single statement has a single task.
\<close>

datatype task =
    T_register string string string nat nat
  | T_update_profile int string string "string option" nat
  | T_update_room int "string option" "string option"
  | T_delete_room_1 int string
  | T_delete_room_2 int string
  | T_create_event int event_fields nat
  | T_update_event int int event_fields
  | T_delete_event_1 int int
  | T_delete_event_2 int int
  | T_create_booking_1 int int int nat
  | T_create_booking_2 int int int nat
  | T_create_booking_3 int int int nat
  | T_create_booking_4 int int
  | T_update_booking_1 int int int
  | T_update_booking_2 int int int int
  | T_update_booking_3 int int int int
  | T_update_booking_4 int int
  | T_cancel_booking_1 int int
  | T_cancel_booking_2 int int booking_row
  | T_cancel_booking_3 booking_row

text \<open>
  The part of a handler before its first statement: the task a request starts, or
  \<open>None\<close> when the handler answers at once (\<^verbatim>\<open>seats\<close> or a room name is missing).
\<close>

fun start :: "request \<Rightarrow> task option" where
  "start (Register name email password salt now) =
     Some (T_register name email password salt now)"
| "start (UpdateProfile uid name email password salt) =
     Some (T_update_profile uid name email password salt)"
| "start (UpdateRoom uid oldName newName) =
     (if falsy oldName \<or> falsy newName then None
      else Some (T_update_room uid oldName newName))"
| "start (DeleteRoom uid roomName) = Some (T_delete_room_1 uid roomName)"
| "start (CreateEvent uid f now) = Some (T_create_event uid f now)"
| "start (UpdateEvent uid event_id f) = Some (T_update_event uid event_id f)"
| "start (DeleteEvent uid event_id) = Some (T_delete_event_1 uid event_id)"
| "start (CreateBooking uid event_id seats now) =
     (case seats of
        None \<Rightarrow> None
      | Some k \<Rightarrow> if k = 0 \<or> k \<le> 0 then None
                  else Some (T_create_booking_1 uid event_id k now))"
| "start (UpdateBooking uid booking_id seats) =
     (case seats of
        None \<Rightarrow> None
      | Some k \<Rightarrow> if k = 0 \<or> k \<le> 0 then None
                  else Some (T_update_booking_1 uid booking_id k))"
| "start (CancelBooking uid booking_id) = Some (T_cancel_booking_1 uid booking_id)"

text \<open>
  One statement of a task: the task that remains (\<open>None\<close> when the handler has
  answered) and the store the statement leaves. The arguments of the booking tasks
  are, in \<^verbatim>\<open>POST /api/bookings\<close>, the user, the event, the seats and the clock; in
  \<^verbatim>\<open>PUT /api/bookings/:id\<close>, the booking and the seats, then \<^verbatim>\<open>eventId\<close> and
  \<^verbatim>\<open>seatDifference\<close> once the booking is read; in \<^verbatim>\<open>DELETE /api/bookings/:id\<close>, the
  booking row once it is read.
\<close>

fun exec :: "task \<Rightarrow> db \<Rightarrow> task option \<times> db" where
  "exec (T_register name email password salt now) s =
     (None, snd (register name email password salt now s))"
| "exec (T_update_profile uid name email password salt) s =
     (None, snd (update_profile uid name email password salt s))"
| "exec (T_update_room uid oldName newName) s =
     (None, snd (update_room uid oldName newName s))"
| "exec (T_delete_room_1 uid roomName) s =
     (Some (T_delete_room_2 uid roomName), delete_bookings_of_room roomName uid s)"
| "exec (T_delete_room_2 uid roomName) s =
     (None, snd (delete_events (\<lambda>e. e_location e = roomName \<and> e_user_id e = uid) s))"
| "exec (T_create_event uid f now) s = (None, snd (create_event uid f now s))"
| "exec (T_update_event uid event_id f) s = (None, snd (update_event uid event_id f s))"
| "exec (T_delete_event_1 uid event_id) s =
     (Some (T_delete_event_2 uid event_id), delete_bookings_of_event event_id s)"
| "exec (T_delete_event_2 uid event_id) s =
     (None, snd (delete_events (\<lambda>e. e_id e = event_id \<and> e_user_id e = uid) s))"
| "exec (T_create_booking_1 uid event_id k now) s =
     (if bookings_of s event_id uid \<noteq> [] then (None, s)
      else (Some (T_create_booking_2 uid event_id k now), s))"
| "exec (T_create_booking_2 uid event_id k now) s =
     (case event_by_id s event_id of
        [] \<Rightarrow> (None, s)
      | e # _ \<Rightarrow> if e_available_seats e < k then (None, s)
                 else (Some (T_create_booking_3 uid event_id k now), s))"
| "exec (T_create_booking_3 uid event_id k now) s =
     (case insert_booking event_id uid (Some k) now s of
        (Inl err, s1) \<Rightarrow> (None, s1)
      | (Inr row, s1) \<Rightarrow> (Some (T_create_booking_4 event_id k), s1))"
| "exec (T_create_booking_4 event_id k) s =
     (None, case take_seats k event_id s of Inl err \<Rightarrow> s | Inr s1 \<Rightarrow> s1)"
| "exec (T_update_booking_1 uid booking_id k) s =
     (case booking_by_id s booking_id uid of
        [] \<Rightarrow> (None, s)
      | b # _ \<Rightarrow> (Some (T_update_booking_2 booking_id k (b_event_id b) (k - b_seats b)), s))"
| "exec (T_update_booking_2 booking_id k eventId seatDifference) s =
     (case event_by_id s eventId of
        [] \<Rightarrow> (None, s)
      | e # _ \<Rightarrow> if e_available_seats e < seatDifference then (None, s)
                 else (Some (T_update_booking_3 booking_id k eventId seatDifference), s))"
| "exec (T_update_booking_3 booking_id k eventId seatDifference) s =
     (case set_booking_seats k booking_id s of
        Inl err \<Rightarrow> (None, s)
      | Inr (rows, s1) \<Rightarrow> (Some (T_update_booking_4 eventId seatDifference), s1))"
| "exec (T_update_booking_4 eventId seatDifference) s =
     (None, case take_seats seatDifference eventId s of Inl err \<Rightarrow> s | Inr s1 \<Rightarrow> s1)"
| "exec (T_cancel_booking_1 uid booking_id) s =
     (case booking_by_id s booking_id uid of
        [] \<Rightarrow> (None, s)
      | b # _ \<Rightarrow> (Some (T_cancel_booking_2 uid booking_id b), s))"
| "exec (T_cancel_booking_2 uid booking_id b) s =
     (Some (T_cancel_booking_3 b), delete_booking booking_id uid s)"
| "exec (T_cancel_booking_3 b) s =
     (None, case return_seats (b_seats b) (b_event_id b) s of Inl err \<Rightarrow> s | Inr s1 \<Rightarrow> s1)"

text \<open>The number of statements a task runs at most before its handler answers.\<close>

fun statements_left :: "task \<Rightarrow> nat" where
  "statements_left (T_delete_room_1 uid roomName) = 2"
| "statements_left (T_delete_event_1 uid event_id) = 2"
| "statements_left (T_create_booking_1 uid event_id k now) = 4"
| "statements_left (T_create_booking_2 uid event_id k now) = 3"
| "statements_left (T_create_booking_3 uid event_id k now) = 2"
| "statements_left (T_update_booking_1 uid booking_id k) = 4"
| "statements_left (T_update_booking_2 booking_id k eventId seatDifference) = 3"
| "statements_left (T_update_booking_3 booking_id k eventId seatDifference) = 2"
| "statements_left (T_cancel_booking_1 uid booking_id) = 3"
| "statements_left (T_cancel_booking_2 uid booking_id b) = 2"
| "statements_left t = 1"

text \<open>A task run to its answer with nothing in between (no handler has more than four
  statements).\<close>

fun finish_task :: "nat \<Rightarrow> task \<Rightarrow> db \<Rightarrow> db" where
  "finish_task 0 t s = s"
| "finish_task (Suc n) t s =
     (case exec t s of (None, s1) \<Rightarrow> s1 | (Some t1, s1) \<Rightarrow> finish_task n t1 s1)"

text \<open>
  A configuration is the store with the tasks in flight. The task at position \<open>i\<close>
  runs its next statement; a task that has answered leaves the list.
\<close>

definition advance :: "nat \<Rightarrow> db \<times> task list \<Rightarrow> db \<times> task list" where
  "advance i c =
     (case c of
        (s, ts) \<Rightarrow>
          if i < length ts
            then (case exec (ts ! i) s of
                    (None, s1) \<Rightarrow> (s1, take i ts @ drop (Suc i) ts)
                  | (Some t1, s1) \<Rightarrow> (s1, ts[i := t1]))
          else c)"

text \<open>A schedule: which task runs its next statement, step after step.\<close>

fun schedule :: "nat list \<Rightarrow> db \<times> task list \<Rightarrow> db \<times> task list" where
  "schedule [] c = c"
| "schedule (i # rest) c = schedule rest (advance i c)"

text \<open>
  The configurations of the service: it starts with the empty store, a request may
  arrive at any time, and any task in flight may run its next statement.
\<close>

inductive reachable_cfg :: "db \<times> task list \<Rightarrow> bool" where
  init: "reachable_cfg (empty_db, [])"
| arrive: "reachable_cfg (s, ts) \<Longrightarrow> start r = Some t \<Longrightarrow> reachable_cfg (s, t # ts)"
| statement: "reachable_cfg c \<Longrightarrow> reachable_cfg (advance i c)"

definition reachable :: "db \<Rightarrow> bool" where
  "reachable s \<longleftrightarrow> (\<exists>ts. reachable_cfg (s, ts))"

text \<open>What a task has checked before its statement: the seats it will write are
  positive, and those it will insert are an \<^verbatim>\<open>INTEGER\<close>.\<close>

fun task_ok :: "task \<Rightarrow> bool" where
  "task_ok (T_create_booking_1 uid event_id k now) = (0 < k)"
| "task_ok (T_create_booking_2 uid event_id k now) = (0 < k)"
| "task_ok (T_create_booking_3 uid event_id k now) = (0 < k \<and> in_int4 k)"
| "task_ok (T_update_booking_1 uid booking_id k) = (0 < k)"
| "task_ok (T_update_booking_2 booking_id k eventId seatDifference) = (0 < k)"
| "task_ok (T_update_booking_3 booking_id k eventId seatDifference) = (0 < k)"
| "task_ok t = True"

section \<open>Properties of a store\<close>

text \<open>The constraints of the schema: primary keys below their sequences, unique
  emails, one booking per (event, user), and the foreign keys.\<close>

definition users_ok :: "db \<Rightarrow> bool" where
  "users_ok s \<longleftrightarrow>
     distinct (map u_id (users s)) \<and> (\<forall>u \<in> set (users s). u_id u \<le> users_id_seq s)
     \<and> distinct (map u_email (users s))"

definition events_ok :: "db \<Rightarrow> bool" where
  "events_ok s \<longleftrightarrow>
     distinct (map e_id (events s))
     \<and> (\<forall>e \<in> set (events s). e_id e \<le> events_id_seq s \<and> e_user_id e \<in> u_id ` set (users s))"

definition one_booking_per_pair :: "db \<Rightarrow> bool" where
  "one_booking_per_pair s \<longleftrightarrow> distinct (map (\<lambda>b. (b_event_id b, b_user_id b)) (bookings s))"

definition bookings_ok :: "db \<Rightarrow> bool" where
  "bookings_ok s \<longleftrightarrow>
     distinct (map b_id (bookings s))
     \<and> (\<forall>b \<in> set (bookings s). b_id b \<le> bookings_id_seq s
            \<and> b_event_id b \<in> e_id ` set (events s) \<and> b_user_id b \<in> u_id ` set (users s))
     \<and> one_booking_per_pair s"

definition wf_db :: "db \<Rightarrow> bool" where
  "wf_db s \<longleftrightarrow> users_ok s \<and> events_ok s \<and> bookings_ok s"

text \<open>The \<^verbatim>\<open>INTEGER\<close> columns the handlers compute with hold values of 32 bits.\<close>

definition columns_ok :: "db \<Rightarrow> bool" where
  "columns_ok s \<longleftrightarrow>
     list_all (\<lambda>e. in_int4 (e_available_seats e)) (events s)
     \<and> list_all (\<lambda>b. in_int4 (b_seats b)) (bookings s)"

text \<open>\<^verbatim>\<open>SELECT available_seats FROM events WHERE id = $1\<close>, first row.\<close>

definition event_seats :: "db \<Rightarrow> int \<Rightarrow> int option" where
  "event_seats s event_id =
     (case event_by_id s event_id of [] \<Rightarrow> None | e # _ \<Rightarrow> Some (e_available_seats e))"

definition seats_nonneg :: "db \<Rightarrow> bool" where
  "seats_nonneg s \<longleftrightarrow> (\<forall>e \<in> set (events s). 0 \<le> e_available_seats e)"

definition bookings_positive :: "db \<Rightarrow> bool" where
  "bookings_positive s \<longleftrightarrow> (\<forall>b \<in> set (bookings s). 0 < b_seats b)"

text \<open>The error taxonomy of the service, as the responses the handlers send.\<close>

definition InvalidSeatCount :: http_error where
  "InvalidSeatCount = (400, ''Number of seats must be positive'')"

definition AlreadyBooked :: http_error where
  "AlreadyBooked = (400, ''You have already booked this event'')"

definition NotFound :: http_error where
  "NotFound = (404, ''Event not found'')"

definition InsufficientSeats :: http_error where
  "InsufficientSeats = (400, ''Not enough seats available'')"

definition BookingNotFoundOrForbidden :: http_error where
  "BookingNotFoundOrForbidden = (404, ''Booking not found or not authorized'')"

definition EventNotFoundOrForbidden :: http_error where
  "EventNotFoundOrForbidden = (404, ''Event not found or not authorized'')"

definition InvalidCredentials :: http_error where
  "InvalidCredentials = (401, ''Invalid credentials'')"

section \<open>A concrete store\<close>

text \<open>
  Three users; Alice owns a concert that had five seats, of which Bob has booked three.
\<close>

definition alice :: user_row where
  "alice = \<lparr>u_id = 1, u_name = ''Alice'', u_email = ''alice@x.org'',
             u_password = Hashed 11 ''rabbit'', u_created_at = 100\<rparr>"

definition bob :: user_row where
  "bob = \<lparr>u_id = 2, u_name = ''Bob'', u_email = ''bob@x.org'',
           u_password = Hashed 12 ''builder'', u_created_at = 110\<rparr>"

definition carol :: user_row where
  "carol = \<lparr>u_id = 3, u_name = ''Carol'', u_email = ''carol@x.org'',
             u_password = Hashed 13 ''singer'', u_created_at = 120\<rparr>"

definition concert_fields :: event_fields where
  "concert_fields = \<lparr>f_title = ''Concert'', f_description = None, f_date = 9000,
                      f_location = ''Hall'', f_available_seats = 5\<rparr>"

definition concert :: event_row where
  "concert = \<lparr>e_id = 1, e_title = ''Concert'', e_description = None, e_date = 9000,
               e_location = ''Hall'', e_available_seats = 2, e_user_id = 1,
               e_created_at = 200\<rparr>"

definition bobs_booking :: booking_row where
  "bobs_booking = \<lparr>b_id = 1, b_event_id = 1, b_user_id = 2, b_seats = 3,
                    b_created_at = 300\<rparr>"

definition demo_db :: db where
  "demo_db = \<lparr>users = [alice, bob, carol], events = [concert], bookings = [bobs_booking],
               users_id_seq = 3, events_id_seq = 1, bookings_id_seq = 1\<rparr>"

text \<open>The requests that lead from the empty store to \<open>demo_db\<close>.\<close>

definition demo_requests :: "request list" where
  "demo_requests =
     [Register ''Alice'' ''alice@x.org'' ''rabbit'' 11 100,
      Register ''Bob'' ''bob@x.org'' ''builder'' 12 110,
      Register ''Carol'' ''carol@x.org'' ''singer'' 13 120,
      CreateEvent 1 concert_fields 200,
      CreateBooking 2 1 (Some 3) 300]"

text \<open>After them, Alice sets the concert to minus five seats and Bob cancels.\<close>

definition negative_seats_requests :: "request list" where
  "negative_seats_requests =
     demo_requests @
     [UpdateEvent 1 1 (concert_fields\<lparr>f_available_seats := - 5\<rparr>), CancelBooking 2 1]"

text \<open>The store before Bob cancels: the concert has minus five seats.\<close>

definition neg_db :: db where
  "neg_db = demo_db\<lparr>events := [concert\<lparr>e_available_seats := - 5\<rparr>]\<rparr>"

text \<open>Instead, Alice sets the concert to the largest number of seats an \<^verbatim>\<open>INTEGER\<close>
  holds.\<close>

definition big_requests :: "request list" where
  "big_requests =
     demo_requests @ [UpdateEvent 1 1 (concert_fields\<lparr>f_available_seats := 2147483647\<rparr>)]"

definition big_db :: db where
  "big_db = demo_db\<lparr>events := [concert\<lparr>e_available_seats := 2147483647\<rparr>]\<rparr>"

text \<open>
  Carol and Alice each ask for the two seats left of the concert at the same time.
  Both handlers read the seats before either writes: each runs its two reads, then
  Carol's inserts and takes her seats, then Alice's does.
\<close>

definition two_creates :: "db \<times> task list" where
  "two_creates = (demo_db, [T_create_booking_1 3 1 2 400, T_create_booking_1 1 1 2 401])"

definition reads_first :: "nat list" where
  "reads_first = [0, 1, 0, 1, 0, 0, 0, 0]"

text \<open>Carol's booking of the two seats left, made at time 400.\<close>

definition carols_booking :: booking_row where
  "carols_booking = \<lparr>b_id = 2, b_event_id = 1, b_user_id = 3, b_seats = 2,
                      b_created_at = 400\<rparr>"

lemmas demo_defs = demo_db_def alice_def bob_def carol_def concert_def bobs_booking_def
  concert_fields_def demo_requests_def carols_booking_def neg_db_def big_db_def

section \<open>Lemmas on the statements\<close>

lemma filter_map_commute:
  "(\<And>x. x \<in> set xs \<Longrightarrow> P (f x) = P x) \<Longrightarrow> filter P (map f xs) = map f (filter P xs)"
  by (induction xs) auto

lemma map_if_filter_same:
  "map (\<lambda>x. if P x then g x else x) (filter P xs) = map g (filter P xs)"
  by (induction xs) auto

lemma map_if_filter_other:
  "(\<And>x. Q x \<Longrightarrow> \<not> P x) \<Longrightarrow>
   map (\<lambda>x. if P x then g x else x) (filter Q xs) = filter Q xs"
  by (induction xs) auto

lemma filter_eq_ConsD: "filter P xs = y # ys \<Longrightarrow> P y \<and> y \<in> set xs"
proof -
  assume "filter P xs = y # ys"
  then have "y \<in> set (filter P xs)" by simp
  then show ?thesis by simp
qed

lemma filter_key_singleton:
  "distinct (map f xs) \<Longrightarrow> x \<in> set xs \<Longrightarrow> Q x \<Longrightarrow> filter (\<lambda>y. f y = f x \<and> Q y) xs = [x]"
proof (induction xs)
  case Nil
  then show ?case by simp
next
  case (Cons a xs)
  show ?case
  proof (cases "a = x")
    case True
    have "f x \<notin> f ` set xs" using Cons.prems(1) True by simp
    then have "\<forall>y \<in> set xs. f y \<noteq> f x" by (metis imageI)
    then have "filter (\<lambda>y. f y = f x \<and> Q y) xs = []"
      by (simp add: filter_empty_conv)
    with True Cons.prems(3) show ?thesis by simp
  next
    case False
    with Cons.prems have "x \<in> set xs" by simp
    moreover have "f a \<noteq> f x" using Cons.prems(1) \<open>x \<in> set xs\<close> by force
    ultimately show ?thesis using Cons by simp
  qed
qed

lemma in_int4_simps [simp]: "in_int4 0" "in_int4 1" "in_int4 2147483647" "\<not> in_int4 2147483648"
  by (simp_all add: in_int4_def)

lemma varchar100_short: "length x \<le> 100 \<Longrightarrow> varchar100 x = Some x"
  by (simp add: varchar100_def)

lemma varchar100_length: "varchar100 x = Some y \<Longrightarrow> length y \<le> 100"
  by (auto simp: varchar100_def split: if_splits)

lemma event_by_id_seats_plus:
  "event_by_id (seats_plus d eid s) eid' =
     (if eid' = eid
      then map (\<lambda>e. e\<lparr>e_available_seats := e_available_seats e + d\<rparr>) (event_by_id s eid)
      else event_by_id s eid')"
proof (cases "eid' = eid")
  case True
  then show ?thesis
    by (simp add: event_by_id_def seats_plus_def filter_map_commute map_if_filter_same)
next
  case False
  then have "map (\<lambda>e. if e_id e = eid
                      then e\<lparr>e_available_seats := e_available_seats e + d\<rparr> else e)
               (filter (\<lambda>e. e_id e = eid') (events s)) = filter (\<lambda>e. e_id e = eid') (events s)"
    by (intro map_if_filter_other) simp
  with False show ?thesis
    by (simp add: event_by_id_def seats_plus_def filter_map_commute)
qed

lemma event_seats_seats_plus:
  "event_seats (seats_plus d eid s) eid' =
     (if eid' = eid then map_option (\<lambda>a. a + d) (event_seats s eid) else event_seats s eid')"
  by (simp add: event_seats_def event_by_id_seats_plus split: list.splits)

lemma seats_plus_fields [simp]:
  "bookings (seats_plus d eid s) = bookings s"
  "users (seats_plus d eid s) = users s"
  "users_id_seq (seats_plus d eid s) = users_id_seq s"
  "events_id_seq (seats_plus d eid s) = events_id_seq s"
  "bookings_id_seq (seats_plus d eid s) = bookings_id_seq s"
  by (simp_all add: seats_plus_def)

lemma seats_plus_zero: "seats_plus 0 eid s = s"
  by (simp add: seats_plus_def map_idI)

lemma take_seats_cases:
  "take_seats n eid s = Inl NumericValueOutOfRange \<or> take_seats n eid s = Inr (seats_plus (- n) eid s)"
  by (simp add: take_seats_def)

lemma return_seats_cases:
  "return_seats n eid s = Inl NumericValueOutOfRange \<or> return_seats n eid s = Inr (seats_plus n eid s)"
  by (simp add: return_seats_def)

lemma take_seats_InrD:
  "take_seats n eid s = Inr s' \<Longrightarrow>
   s' = seats_plus (- n) eid s \<and> in_int4 n
   \<and> list_all (\<lambda>e. in_int4 (e_available_seats e - n)) (event_by_id s eid)"
  by (auto simp: take_seats_def split: if_splits)

lemma return_seats_InrD:
  "return_seats n eid s = Inr s' \<Longrightarrow>
   s' = seats_plus n eid s \<and> in_int4 n
   \<and> list_all (\<lambda>e. in_int4 (e_available_seats e + n)) (event_by_id s eid)"
  by (auto simp: return_seats_def split: if_splits)

lemma event_seats_SomeD:
  "event_seats s eid = Some N \<Longrightarrow>
   \<exists>e es. event_by_id s eid = e # es \<and> e_available_seats e = N \<and> e_id e = eid
          \<and> e \<in> set (events s)"
  by (auto simp: event_seats_def event_by_id_def split: list.splits dest: filter_eq_ConsD)


lemma event_by_id_bookings_upd [simp]:
  "event_by_id (s\<lparr>bookings := bs\<rparr>) eid = event_by_id s eid"
  "event_by_id (s\<lparr>bookings_id_seq := n\<rparr>) eid = event_by_id s eid"
  by (simp_all add: event_by_id_def)

lemma event_seats_bookings_upd [simp]:
  "event_seats (s\<lparr>bookings := bs\<rparr>) eid = event_seats s eid"
  "event_seats (s\<lparr>bookings_id_seq := n\<rparr>) eid = event_seats s eid"
  by (simp_all add: event_seats_def)


lemmas wf_defs = wf_db_def users_ok_def events_ok_def bookings_ok_def one_booking_per_pair_def

lemma wf_demo_db: "wf_db demo_db"
  by (simp add: wf_defs demo_defs)

lemma columns_ok_demo_db: "columns_ok demo_db"
  by (simp add: columns_ok_def in_int4_def demo_defs)

lemma booking_by_id_single:
  assumes "wf_db s" "B \<in> set (bookings s)"
  shows "booking_by_id s (b_id B) (b_user_id B) = [B]"
proof -
  have "distinct (map b_id (bookings s))" using assms(1) by (simp add: wf_defs)
  from filter_key_singleton[OF this assms(2), of "\<lambda>b. b_user_id b = b_user_id B"]
  show ?thesis by (simp add: booking_by_id_def)
qed

lemma event_by_id_single:
  assumes "wf_db s" "E \<in> set (events s)"
  shows "event_by_id s (e_id E) = [E]"
proof -
  have "distinct (map e_id (events s))" using assms(1) by (simp add: wf_defs)
  from filter_key_singleton[OF this assms(2), of "\<lambda>b. True"]
  show ?thesis by (simp add: event_by_id_def)
qed

lemma event_by_id_of_seats:
  assumes "wf_db s" "event_seats s eid = Some N"
  shows "\<exists>e. event_by_id s eid = [e] \<and> e_available_seats e = N \<and> e_id e = eid"
proof -
  from event_seats_SomeD[OF assms(2)] obtain e es where
    e: "event_by_id s eid = e # es" "e_available_seats e = N" "e_id e = eid" "e \<in> set (events s)"
    by blast
  from event_by_id_single[OF assms(1) e(4)] e show ?thesis by simp
qed

section \<open>The schema's constraints hold in every reachable state\<close>

lemma wf_filter_bookings: "wf_db s \<Longrightarrow> wf_db (s\<lparr>bookings := filter P (bookings s)\<rparr>)"
  by (auto simp: wf_defs distinct_map_filter)

lemma wf_map_events:
  assumes "wf_db s" and "\<And>e. e_id (f e) = e_id e" and "\<And>e. e_user_id (f e) = e_user_id e"
  shows "wf_db (s\<lparr>events := map f (events s)\<rparr>)"
proof -
  have "e_id \<circ> f = e_id" using assms(2) by (simp add: fun_eq_iff)
  moreover have "e_id ` f ` set (events s) = e_id ` set (events s)"
    using assms(2) by (simp add: image_image)
  ultimately show ?thesis using assms
    by (simp add: wf_defs)
qed

lemma wf_map_bookings:
  assumes "wf_db s" and "\<And>b. b_id (f b) = b_id b" and "\<And>b. b_event_id (f b) = b_event_id b"
    and "\<And>b. b_user_id (f b) = b_user_id b"
  shows "wf_db (s\<lparr>bookings := map f (bookings s)\<rparr>)"
  using assms by (simp add: wf_defs comp_def)

lemma wf_seats_plus: "wf_db s \<Longrightarrow> wf_db (seats_plus d eid s)"
  unfolding seats_plus_def by (rule wf_map_events) simp_all

lemma wf_take_seats: "wf_db s \<Longrightarrow> take_seats n eid s = Inr s' \<Longrightarrow> wf_db s'"
  using take_seats_InrD[of n eid s s'] by (simp add: wf_seats_plus)

lemma wf_return_seats: "wf_db s \<Longrightarrow> return_seats n eid s = Inr s' \<Longrightarrow> wf_db s'"
  using return_seats_InrD[of n eid s s'] by (simp add: wf_seats_plus)

lemma wf_set_booking_seats:
  "wf_db s \<Longrightarrow> set_booking_seats n bid s = Inr (rows, s') \<Longrightarrow> wf_db s'"
proof -
  assume wf: "wf_db s" and eq: "set_booking_seats n bid s = Inr (rows, s')"
  have "wf_db (s\<lparr>bookings := map (\<lambda>b. if b_id b = bid then b\<lparr>b_seats := n\<rparr> else b)
                                   (bookings s)\<rparr>)"
    using wf by (rule wf_map_bookings) simp_all
  then show ?thesis using eq by (auto simp: set_booking_seats_def split: if_splits)
qed

lemma wf_delete_booking: "wf_db s \<Longrightarrow> wf_db (delete_booking bid uid s)"
  unfolding delete_booking_def by (rule wf_filter_bookings)

lemma wf_delete_bookings_of_event: "wf_db s \<Longrightarrow> wf_db (delete_bookings_of_event eid s)"
  unfolding delete_bookings_of_event_def by (rule wf_filter_bookings)

lemma wf_delete_bookings_of_room: "wf_db s \<Longrightarrow> wf_db (delete_bookings_of_room r uid s)"
  unfolding delete_bookings_of_room_def by (rule wf_filter_bookings)

lemma wf_insert_booking: "wf_db s \<Longrightarrow> wf_db (snd (insert_booking eid uid seats now s))"
  by (cases seats)
     (auto simp: insert_booking_def Let_def wf_defs bookings_of_def filter_empty_conv)

lemma wf_insert_user: "wf_db s \<Longrightarrow> wf_db (snd (insert_user name email h now s))"
  by (auto simp: insert_user_def Let_def wf_defs split: option.splits)

lemma wf_insert_event: "wf_db s \<Longrightarrow> wf_db (snd (insert_event f uid now s))"
  by (auto simp: insert_event_def Let_def wf_defs split: sum.splits)

lemma wf_update_events:
  "wf_db s \<Longrightarrow> update_events f eid uid s = Inr (rows, s') \<Longrightarrow> wf_db s'"
proof -
  assume wf: "wf_db s" and eq: "update_events f eid uid s = Inr (rows, s')"
  have "wf_db (s\<lparr>events := map (\<lambda>e. if e_id e = eid \<and> e_user_id e = uid
                                       then set_event g e else e) (events s)\<rparr>)" for g
    using wf by (rule wf_map_events) (simp_all add: set_event_def)
  then show ?thesis using eq by (auto simp: update_events_def split: sum.splits)
qed

lemma wf_rename_location:
  "wf_db s \<Longrightarrow> rename_location new old uid s = Inr (n, s') \<Longrightarrow> wf_db s'"
proof -
  assume wf: "wf_db s" and eq: "rename_location new old uid s = Inr (n, s')"
  have "wf_db (s\<lparr>events := map (\<lambda>e. if e_location e = old \<and> e_user_id e = uid
                                       then e\<lparr>e_location := x\<rparr> else e) (events s)\<rparr>)" for x
    using wf by (rule wf_map_events) simp_all
  then show ?thesis using eq by (auto simp: rename_location_def split: option.splits)
qed

lemma fk_after_delete:
  assumes "x \<in> f ` set es" and "x \<notin> f ` set (filter P es)"
  shows "x \<in> f ` set (filter (\<lambda>e. \<not> P e) es)"
  using assms by auto

lemma wf_delete_events: "wf_db s \<Longrightarrow> wf_db (snd (delete_events P s))"
proof (cases "\<exists>b \<in> set (bookings s). b_event_id b \<in> e_id ` set (filter P (events s))")
  case True
  assume "wf_db s"
  with True show ?thesis by (simp add: delete_events_def Let_def)
next
  case False
  assume wf: "wf_db s"
  have fk: "b_event_id b \<in> e_id ` set (filter (\<lambda>e. \<not> P e) (events s))"
    if "b \<in> set (bookings s)" for b
    using that wf False by (intro fk_after_delete) (auto simp: wf_defs)
  have "snd (delete_events P s) = s\<lparr>events := filter (\<lambda>e. \<not> P e) (events s)\<rparr>"
    using False by (simp add: delete_events_def Let_def)
  then show ?thesis using wf fk
    by (simp add: wf_defs distinct_map_filter)
qed

lemma distinct_key_update:
  assumes "distinct (map i us)" and "distinct (map k us)"
    and "\<forall>u \<in> set us. i u \<noteq> uid \<longrightarrow> k u \<noteq> v"
  shows "distinct (map (\<lambda>u. if i u = uid then v else k u) us)"
  using assms
proof (induction us)
  case Nil
  then show ?case by simp
next
  case (Cons a us)
  then have IH: "distinct (map (\<lambda>u. if i u = uid then v else k u) us)" by simp
  show ?case
  proof (cases "i a = uid")
    case True
    have "i a \<notin> i ` set us" using Cons.prems(1) by simp
    with True have ne: "\<forall>u \<in> set us. i u \<noteq> uid" by (metis imageI)
    then have eq: "map (\<lambda>u. if i u = uid then v else k u) us = map k us" by simp
    from ne Cons.prems(3) have "\<forall>u \<in> set us. k u \<noteq> v" by simp
    then have "v \<notin> set (map k us)" by auto
    moreover have "distinct (map k us)" using Cons.prems(2) by simp
    ultimately show ?thesis using True by (simp only: list.map eq if_True distinct.simps) simp
  next
    case False
    have "k a \<notin> set (map (\<lambda>u. if i u = uid then v else k u) us)"
    proof
      assume "k a \<in> set (map (\<lambda>u. if i u = uid then v else k u) us)"
      then obtain u where u: "u \<in> set us" "k a = (if i u = uid then v else k u)" by auto
      show False
      proof (cases "i u = uid")
        case True
        with u have "k a = v" by simp
        with False Cons.prems(3) show False by simp
      next
        case False
        with u have "k a = k u" by simp
        with u(1) Cons.prems(2) show False by force
      qed
    qed
    with False IH show ?thesis by (simp only: list.map if_False distinct.simps) simp
  qed
qed

lemma wf_map_users:
  assumes "wf_db s" and "\<And>u. u_id (f u) = u_id u"
    and "distinct (map u_email (map f (users s)))"
  shows "wf_db (s\<lparr>users := map f (users s)\<rparr>)"
proof -
  have "u_id \<circ> f = u_id" using assms(2) by (simp add: fun_eq_iff)
  moreover have "u_id ` f ` set (users s) = u_id ` set (users s)"
    using assms(2) by (simp add: image_image)
  ultimately show ?thesis using assms
    by (simp add: wf_defs)
qed

lemma update_user_cases:
  "snd (update_user name email h uid s) = s
   \<or> (\<exists>name' email'.
        \<not> ((\<exists>u \<in> set (users s). u_id u = uid)
             \<and> (\<exists>u \<in> set (users s). u_id u \<noteq> uid \<and> u_email u = email'))
        \<and> snd (update_user name email h uid s) =
            s\<lparr>users := map (\<lambda>u. if u_id u = uid then set_profile name' email' h u else u)
                            (users s)\<rparr>)"
  by (auto simp: update_user_def split: option.splits)

lemma wf_update_user: "wf_db s \<Longrightarrow> wf_db (snd (update_user name email h uid s))"
proof -
  assume wf: "wf_db s"
  have "wf_db (s\<lparr>users := map (\<lambda>u. if u_id u = uid then set_profile name' email' h u else u)
                            (users s)\<rparr>)"
    if free: "\<not> ((\<exists>u \<in> set (users s). u_id u = uid)
             \<and> (\<exists>u \<in> set (users s). u_id u \<noteq> uid \<and> u_email u = email'))"
    for name' email'
  proof -
    define f where "f = (\<lambda>u. if u_id u = uid then set_profile name' email' h u else u)"
    have id: "u_id (f u) = u_id u" for u
      by (simp add: f_def set_profile_def split: option.splits)
    have em: "u_email (set_profile name' email' h u) = email'" for u
      by (simp add: set_profile_def split: option.splits)
    have "distinct (map u_email (map f (users s)))"
    proof (cases "\<exists>u \<in> set (users s). u_id u = uid")
      case True
      with free have "\<forall>u \<in> set (users s). u_id u \<noteq> uid \<longrightarrow> u_email u \<noteq> email'" by blast
      with wf have "distinct (map (\<lambda>u. if u_id u = uid then email' else u_email u) (users s))"
        by (intro distinct_key_update) (simp_all add: wf_defs)
      moreover have "map u_email (map f (users s)) =
          map (\<lambda>u. if u_id u = uid then email' else u_email u) (users s)"
        by (simp add: f_def em)
      ultimately show ?thesis by (simp only:)
    next
      case False
      then have "map f (users s) = users s" by (simp add: map_idI f_def)
      with wf show ?thesis by (simp add: wf_defs)
    qed
    with wf id show ?thesis unfolding f_def[symmetric] by (intro wf_map_users)
  qed
  then show ?thesis using wf update_user_cases[of name email h uid s] by auto
qed

lemma wf_register: "wf_db s \<Longrightarrow> wf_db (snd (register name email password salt now s))"
proof -
  assume wf: "wf_db s"
  obtain r s1 where eq: "insert_user name email (bcrypt_hash password salt) now s = (r, s1)"
    by force
  with wf_insert_user[OF wf, of name email "bcrypt_hash password salt" now]
  have "wf_db s1" by simp
  then show ?thesis using eq by (cases r) (simp_all add: register_def Let_def)
qed

lemma wf_update_profile:
  "wf_db s \<Longrightarrow> wf_db (snd (update_profile uid name email password salt s))"
proof -
  assume wf: "wf_db s"
  define h where "h = (case password of None \<Rightarrow> None
             | Some p \<Rightarrow> if p = [] then None else Some (bcrypt_hash p salt))"
  obtain r s1 where eq: "update_user name email h uid s = (r, s1)"
    by force
  with wf_update_user[OF wf, of name email h uid] have "wf_db s1" by simp
  then show ?thesis using eq
    by (cases r) (simp_all add: update_profile_def Let_def h_def[symmetric] split: list.splits)
qed

lemma wf_create_event: "wf_db s \<Longrightarrow> wf_db (snd (create_event uid f now s))"
proof -
  assume wf: "wf_db s"
  obtain r s1 where eq: "insert_event f uid now s = (r, s1)" by force
  with wf_insert_event[OF wf, of f uid now] have "wf_db s1" by simp
  then show ?thesis using eq by (cases r) (simp_all add: create_event_def)
qed

lemma wf_update_event: "wf_db s \<Longrightarrow> wf_db (snd (update_event uid eid f s))"
proof (cases "update_events f eid uid s")
  case (Inl err)
  assume "wf_db s"
  with Inl show ?thesis by (simp add: update_event_def)
next
  case (Inr p)
  assume wf: "wf_db s"
  obtain rows s1 where p: "p = (rows, s1)" by force
  with wf_update_events[OF wf, of f eid uid rows s1] Inr have "wf_db s1" by simp
  then show ?thesis using Inr p by (cases rows) (simp_all add: update_event_def)
qed

lemma wf_update_room: "wf_db s \<Longrightarrow> wf_db (snd (update_room uid old new s))"
proof -
  assume wf: "wf_db s"
  show ?thesis
  proof (cases "falsy old \<or> falsy new")
    case True
    with wf show ?thesis by (simp add: update_room_def)
  next
    case False
    then obtain old' new' where on: "old = Some old'" "new = Some new'"
      by (cases old; cases new) auto
    show ?thesis
    proof (cases "rename_location new' old' uid s")
      case (Inl err)
      then show ?thesis using wf False on by (simp add: update_room_def)
    next
      case (Inr p)
      obtain n s1 where p: "p = (n, s1)" by force
      with wf_rename_location[OF wf, of new' old' uid n s1] Inr have "wf_db s1" by simp
      then show ?thesis using Inr p False on by (simp add: update_room_def)
    qed
  qed
qed

lemma columns_ok_frame:
  "events s' = events s \<Longrightarrow> bookings s' = bookings s \<Longrightarrow> columns_ok s' = columns_ok s"
  by (simp add: columns_ok_def)

lemma bookings_positive_frame:
  "bookings s' = bookings s \<Longrightarrow> bookings_positive s' = bookings_positive s"
  by (simp add: bookings_positive_def)

lemma columns_ok_subset:
  "columns_ok s \<Longrightarrow> set (events s') \<subseteq> set (events s) \<Longrightarrow> set (bookings s') \<subseteq> set (bookings s)
   \<Longrightarrow> columns_ok s'"
  by (auto simp: columns_ok_def list_all_iff)

lemma bp_subset:
  "bookings_positive s \<Longrightarrow> set (bookings s') \<subseteq> set (bookings s) \<Longrightarrow> bookings_positive s'"
  by (auto simp: bookings_positive_def)

lemma register_frame:
  "events (snd (register name email password salt now s)) = events s"
  "bookings (snd (register name email password salt now s)) = bookings s"
  by (simp_all add: register_def insert_user_def Let_def split: option.splits)

lemma update_profile_frame:
  "events (snd (update_profile uid name email password salt s)) = events s"
  "bookings (snd (update_profile uid name email password salt s)) = bookings s"
  by (simp_all add: update_profile_def update_user_def Let_def split: list.splits option.splits)

lemma rename_location_frame:
  assumes "rename_location new old uid s = Inr (n, s')"
  shows "bookings s' = bookings s"
    and "map e_available_seats (events s') = map e_available_seats (events s)"
  using assms by (auto simp: rename_location_def comp_def split: option.splits)

lemma columns_ok_seats:
  "map e_available_seats (events s') = map e_available_seats (events s)
   \<Longrightarrow> bookings s' = bookings s \<Longrightarrow> columns_ok s' = columns_ok s"
proof -
  assume a: "map e_available_seats (events s') = map e_available_seats (events s)"
    and b: "bookings s' = bookings s"
  have "list_all (\<lambda>e. in_int4 (e_available_seats e)) es
          = list_all in_int4 (map e_available_seats es)" for es
    by (simp add: list_all_iff)
  from this[of "events s'"] this[of "events s"] a b show ?thesis
    by (simp add: columns_ok_def)
qed

lemma update_room_ok:
  "columns_ok (snd (update_room uid old new s)) = columns_ok s"
  "bookings (snd (update_room uid old new s)) = bookings s"
proof -
  have "map e_available_seats (events (snd (update_room uid old new s)))
          = map e_available_seats (events s)
        \<and> bookings (snd (update_room uid old new s)) = bookings s"
  proof (cases "falsy old \<or> falsy new")
    case True
    then show ?thesis by (simp add: update_room_def)
  next
    case False
    then obtain old' new' where on: "old = Some old'" "new = Some new'"
      by (cases old; cases new) auto
    show ?thesis
    proof (cases "rename_location new' old' uid s")
      case (Inl err)
      then show ?thesis using False on by (simp add: update_room_def)
    next
      case (Inr p)
      obtain n s1 where p: "p = (n, s1)" by force
      from rename_location_frame[of new' old' uid s n s1] Inr p
      show ?thesis using False on by (simp add: update_room_def)
    qed
  qed
  then have a: "map e_available_seats (events (snd (update_room uid old new s)))
          = map e_available_seats (events s)"
    and b: "bookings (snd (update_room uid old new s)) = bookings s"
    by blast+
  show "bookings (snd (update_room uid old new s)) = bookings s" by (rule b)
  show "columns_ok (snd (update_room uid old new s)) = columns_ok s"
    using a b by (rule columns_ok_seats)
qed

lemma event_columns_InrD:
  "event_columns f0 = Inr f \<Longrightarrow> in_int4 (f_available_seats f)
     \<and> f_available_seats f = f_available_seats f0"
  by (auto simp: event_columns_def split: if_splits option.splits)

lemma create_event_ok:
  "columns_ok s \<Longrightarrow> columns_ok (snd (create_event uid f now s))"
  "bookings (snd (create_event uid f now s)) = bookings s"
proof -
  show "bookings (snd (create_event uid f now s)) = bookings s"
    by (simp add: create_event_def insert_event_def Let_def split: sum.splits)
  assume "columns_ok s"
  then show "columns_ok (snd (create_event uid f now s))"
    by (auto simp: create_event_def insert_event_def Let_def columns_ok_def
          dest: event_columns_InrD split: sum.splits)
qed

lemma update_event_ok:
  "columns_ok s \<Longrightarrow> columns_ok (snd (update_event uid eid f s))"
  "bookings (snd (update_event uid eid f s)) = bookings s"
proof -
  show "bookings (snd (update_event uid eid f s)) = bookings s"
    by (simp add: update_event_def update_events_def split: sum.splits list.splits)
  assume c: "columns_ok s"
  show "columns_ok (snd (update_event uid eid f s))"
  proof (cases "event_columns f")
    case (Inl err)
    then show ?thesis using c by (simp add: update_event_def update_events_def)
  next
    case (Inr g)
    then have "in_int4 (f_available_seats g)" using event_columns_InrD[of f g] by blast
    then have "columns_ok (s\<lparr>events := map (\<lambda>e. if e_id e = eid \<and> e_user_id e = uid
                                       then set_event g e else e) (events s)\<rparr>)"
      using c by (auto simp: columns_ok_def list_all_iff set_event_def)
    then show ?thesis using Inr
      by (simp add: update_event_def update_events_def split: list.splits)
  qed
qed

lemma delete_events_sub:
  "set (events (snd (delete_events P s))) \<subseteq> set (events s)"
  "bookings (snd (delete_events P s)) = bookings s"
  by (auto simp: delete_events_def Let_def)

lemma columns_ok_seats_plus:
  "columns_ok s \<Longrightarrow> list_all (\<lambda>e. in_int4 (e_available_seats e + d)) (event_by_id s eid)
   \<Longrightarrow> columns_ok (seats_plus d eid s)"
  by (auto simp: columns_ok_def list_all_iff seats_plus_def event_by_id_def)

lemma columns_ok_take_seats:
  "columns_ok s \<Longrightarrow> take_seats n eid s = Inr s' \<Longrightarrow> columns_ok s'"
  using take_seats_InrD[of n eid s s'] columns_ok_seats_plus[of s "- n" eid] by simp

lemma columns_ok_return_seats:
  "columns_ok s \<Longrightarrow> return_seats n eid s = Inr s' \<Longrightarrow> columns_ok s'"
  using return_seats_InrD[of n eid s s'] columns_ok_seats_plus[of s n eid] by simp

lemma insert_booking_ok2:
  assumes "0 < k" "in_int4 k"
  shows "columns_ok s \<Longrightarrow> columns_ok (snd (insert_booking eid uid (Some k) now s))"
    and "bookings_positive s \<Longrightarrow> bookings_positive (snd (insert_booking eid uid (Some k) now s))"
  using assms
  by (auto simp: insert_booking_def Let_def columns_ok_def bookings_positive_def)

lemma set_booking_seats_ok:
  assumes "set_booking_seats k bid s = Inr (rows, s')"
  shows "columns_ok s \<Longrightarrow> columns_ok s'"
    and "0 < k \<Longrightarrow> bookings_positive s \<Longrightarrow> bookings_positive s'"
    and "events s' = events s"
  using assms
  by (auto simp: set_booking_seats_def columns_ok_def bookings_positive_def list_all_iff
        split: if_splits)

lemma case_sum_db: "(case x of Inl err \<Rightarrow> s | Inr s1 \<Rightarrow> s1) = s' \<Longrightarrow> s' = s \<or> x = Inr s'"
  by (cases x) auto

lemma exec_wf:
  assumes "wf_db s" "exec t s = (r, s')"
  shows "wf_db s'"
proof (cases t)
  case (T_create_booking_3 uid eid k now)
  then show ?thesis
    using assms wf_insert_booking[OF assms(1), of eid uid "Some k" now]
    by (auto split: prod.splits sum.splits)
next
  case (T_create_booking_4 eid k)
  then show ?thesis using assms wf_take_seats[of s k eid]
    by (auto split: sum.splits)
next
  case (T_update_booking_3 bid k eid d)
  then show ?thesis using assms wf_set_booking_seats[of s k bid]
    by (auto split: sum.splits)
next
  case (T_update_booking_4 eid d)
  then show ?thesis using assms wf_take_seats[of s d eid]
    by (auto split: sum.splits)
next
  case (T_cancel_booking_3 b)
  then show ?thesis using assms wf_return_seats[of s "b_seats b" "b_event_id b"]
    by (auto split: sum.splits)
next
  case (T_register name email password salt now)
  then show ?thesis using assms by (auto simp: wf_register)
next
  case (T_update_profile uid name email password salt)
  then show ?thesis using assms by (auto simp: wf_update_profile)
next
  case (T_update_room uid old new)
  then show ?thesis using assms by (auto simp: wf_update_room)
next
  case (T_delete_room_1 uid room)
  then show ?thesis using assms by (auto simp: wf_delete_bookings_of_room)
next
  case (T_delete_room_2 uid room)
  then show ?thesis using assms by (auto simp: wf_delete_events)
next
  case (T_create_event uid f now)
  then show ?thesis using assms by (auto simp: wf_create_event)
next
  case (T_update_event uid eid f)
  then show ?thesis using assms by (auto simp: wf_update_event)
next
  case (T_delete_event_1 uid eid)
  then show ?thesis using assms by (auto simp: wf_delete_bookings_of_event)
next
  case (T_delete_event_2 uid eid)
  then show ?thesis using assms by (auto simp: wf_delete_events)
next
  case (T_create_booking_1 uid eid k now)
  then show ?thesis using assms by (auto split: if_splits)
next
  case (T_create_booking_2 uid eid k now)
  then show ?thesis using assms by (auto split: if_splits list.splits)
next
  case (T_update_booking_1 uid bid k)
  then show ?thesis using assms by (auto split: list.splits)
next
  case (T_update_booking_2 bid k eid d)
  then show ?thesis using assms by (auto split: if_splits list.splits)
next
  case (T_cancel_booking_1 uid bid)
  then show ?thesis using assms by (auto split: list.splits)
next
  case (T_cancel_booking_2 uid bid b)
  then show ?thesis using assms by (auto simp: wf_delete_booking)
qed

lemma exec_columns_ok:
  assumes "columns_ok s" "task_ok t" "exec t s = (r, s')"
  shows "columns_ok s'"
proof (cases t)
  case (T_register name email password salt now)
  then show ?thesis using assms columns_ok_frame[OF register_frame] by auto
next
  case (T_update_profile uid name email password salt)
  then show ?thesis using assms columns_ok_frame[OF update_profile_frame] by auto
next
  case (T_update_room uid old new)
  then show ?thesis using assms by (auto simp: update_room_ok)
next
  case (T_delete_room_1 uid room)
  then show ?thesis using assms
    by (auto intro!: columns_ok_subset[OF assms(1)] simp: delete_bookings_of_room_def)
next
  case (T_delete_room_2 uid room)
  then show ?thesis using assms delete_events_sub
    by (auto intro!: columns_ok_subset[OF assms(1)])
next
  case (T_create_event uid f now)
  then show ?thesis using assms by (auto simp: create_event_ok)
next
  case (T_update_event uid eid f)
  then show ?thesis using assms by (auto simp: update_event_ok)
next
  case (T_delete_event_1 uid eid)
  then show ?thesis using assms
    by (auto intro!: columns_ok_subset[OF assms(1)] simp: delete_bookings_of_event_def)
next
  case (T_delete_event_2 uid eid)
  then show ?thesis using assms delete_events_sub
    by (auto intro!: columns_ok_subset[OF assms(1)])
next
  case (T_create_booking_3 uid eid k now)
  then show ?thesis using assms insert_booking_ok2(1)[of k s eid uid now]
    by (auto split: prod.splits sum.splits)
next
  case (T_create_booking_4 eid k)
  then show ?thesis using assms columns_ok_take_seats[of s k eid]
    by (auto split: sum.splits)
next
  case (T_update_booking_3 bid k eid d)
  then show ?thesis using assms set_booking_seats_ok(1)[of k bid s]
    by (auto split: sum.splits)
next
  case (T_update_booking_4 eid d)
  then show ?thesis using assms columns_ok_take_seats[of s d eid]
    by (auto split: sum.splits)
next
  case (T_cancel_booking_2 uid bid b)
  then show ?thesis using assms
    by (auto intro!: columns_ok_subset[OF assms(1)] simp: delete_booking_def)
next
  case (T_cancel_booking_3 b)
  then show ?thesis using assms columns_ok_return_seats[of s "b_seats b" "b_event_id b"]
    by (auto split: sum.splits)
next
  case (T_create_booking_1 uid eid k now)
  then show ?thesis using assms by (auto split: if_splits)
next
  case (T_create_booking_2 uid eid k now)
  then show ?thesis using assms by (auto split: if_splits list.splits)
next
  case (T_update_booking_1 uid bid k)
  then show ?thesis using assms by (auto split: list.splits)
next
  case (T_update_booking_2 bid k eid d)
  then show ?thesis using assms by (auto split: if_splits list.splits)
next
  case (T_cancel_booking_1 uid bid)
  then show ?thesis using assms by (auto split: list.splits)
qed

lemma seats_plus_bp [simp]: "bookings_positive (seats_plus d eid s) = bookings_positive s"
  by (simp add: bookings_positive_def)

lemma exec_bookings_positive:
  assumes "bookings_positive s" "task_ok t" "exec t s = (r, s')"
  shows "bookings_positive s'"
proof (cases t)
  case (T_register name email password salt now)
  then show ?thesis using assms bookings_positive_frame[OF register_frame(2)] by auto
next
  case (T_update_profile uid name email password salt)
  then show ?thesis using assms bookings_positive_frame[OF update_profile_frame(2)] by auto
next
  case (T_update_room uid old new)
  then show ?thesis using assms bookings_positive_frame[OF update_room_ok(2)] by auto
next
  case (T_delete_room_1 uid room)
  then show ?thesis using assms
    by (auto intro!: bp_subset[OF assms(1)] simp: delete_bookings_of_room_def)
next
  case (T_delete_room_2 uid room)
  then show ?thesis using assms bookings_positive_frame[OF delete_events_sub(2)] by auto
next
  case (T_create_event uid f now)
  then show ?thesis using assms bookings_positive_frame[OF create_event_ok(2)] by auto
next
  case (T_update_event uid eid f)
  then show ?thesis using assms bookings_positive_frame[OF update_event_ok(2)] by auto
next
  case (T_delete_event_1 uid eid)
  then show ?thesis using assms
    by (auto intro!: bp_subset[OF assms(1)] simp: delete_bookings_of_event_def)
next
  case (T_delete_event_2 uid eid)
  then show ?thesis using assms bookings_positive_frame[OF delete_events_sub(2)] by auto
next
  case (T_create_booking_3 uid eid k now)
  then show ?thesis using assms insert_booking_ok2(2)[of k s eid uid now]
    by (auto split: prod.splits sum.splits)
next
  case (T_create_booking_4 eid k)
  then show ?thesis using assms take_seats_cases[of k eid s] by auto
next
  case (T_update_booking_3 bid k eid d)
  then show ?thesis using assms set_booking_seats_ok(2)[of k bid s]
    by (auto split: sum.splits)
next
  case (T_update_booking_4 eid d)
  then show ?thesis using assms take_seats_cases[of d eid s] by auto
next
  case (T_cancel_booking_2 uid bid b)
  then show ?thesis using assms
    by (auto intro!: bp_subset[OF assms(1)] simp: delete_booking_def)
next
  case (T_cancel_booking_3 b)
  then show ?thesis using assms return_seats_cases[of "b_seats b" "b_event_id b" s] by auto
next
  case (T_create_booking_1 uid eid k now)
  then show ?thesis using assms by (auto split: if_splits)
next
  case (T_create_booking_2 uid eid k now)
  then show ?thesis using assms by (auto split: if_splits list.splits)
next
  case (T_update_booking_1 uid bid k)
  then show ?thesis using assms by (auto split: list.splits)
next
  case (T_update_booking_2 bid k eid d)
  then show ?thesis using assms by (auto split: if_splits list.splits)
next
  case (T_cancel_booking_1 uid bid)
  then show ?thesis using assms by (auto split: list.splits)
qed

lemma exec_task_ok:
  assumes "columns_ok s" "task_ok t" "exec t s = (Some t', s')"
  shows "task_ok t'"
proof (cases t)
  case (T_create_booking_2 uid eid k now)
  show ?thesis
  proof (cases "event_by_id s eid")
    case Nil
    then show ?thesis using assms T_create_booking_2 by simp
  next
    case (Cons e es)
    then have "e \<in> set (events s)"
      using filter_eq_ConsD[of _ "events s" e es] by (simp add: event_by_id_def)
    then have "in_int4 (e_available_seats e)"
      using assms(1) by (simp add: columns_ok_def list_all_iff)
    then show ?thesis using assms T_create_booking_2 Cons
      by (auto simp: in_int4_def split: if_splits)
  qed
next
  case (T_delete_room_1 uid room)
  then show ?thesis using assms by auto
next
  case (T_delete_event_1 uid eid)
  then show ?thesis using assms by auto
next
  case (T_create_booking_1 uid eid k now)
  then show ?thesis using assms by (auto split: if_splits)
next
  case (T_create_booking_3 uid eid k now)
  then show ?thesis using assms by (auto split: prod.splits sum.splits)
next
  case (T_update_booking_1 uid bid k)
  then show ?thesis using assms by (auto split: list.splits)
next
  case (T_update_booking_2 bid k eid d)
  then show ?thesis using assms by (auto split: if_splits list.splits)
next
  case (T_update_booking_3 bid k eid d)
  then show ?thesis using assms by (auto split: sum.splits)
next
  case (T_cancel_booking_1 uid bid)
  then show ?thesis using assms by (auto split: list.splits)
next
  case (T_cancel_booking_2 uid bid b)
  then show ?thesis using assms by auto
qed (use assms in auto)

lemma start_task_ok: "start r = Some t \<Longrightarrow> task_ok t"
  by (cases r) (auto split: if_splits option.splits)

lemma advance_cases:
  "advance i (s, ts) = (s, ts)
   \<or> (i < length ts \<and> (\<exists>s'. exec (ts ! i) s = (None, s')
                             \<and> advance i (s, ts) = (s', take i ts @ drop (Suc i) ts)))
   \<or> (i < length ts \<and> (\<exists>t' s'. exec (ts ! i) s = (Some t', s')
                                \<and> advance i (s, ts) = (s', ts[i := t'])))"
proof (cases "i < length ts")
  case False
  then show ?thesis by (simp add: advance_def)
next
  case True
  obtain r s' where e: "exec (ts ! i) s = (r, s')" by force
  show ?thesis using True e by (cases r) (simp_all add: advance_def)
qed

lemma cfg_invariant:
  "reachable_cfg c \<Longrightarrow>
   wf_db (fst c) \<and> columns_ok (fst c) \<and> bookings_positive (fst c)
   \<and> (\<forall>t \<in> set (snd c). task_ok t)"
proof (induction rule: reachable_cfg.induct)
  case init
  show ?case by (simp add: wf_defs columns_ok_def bookings_positive_def empty_db_def)
next
  case (arrive s ts r t)
  then show ?case using start_task_ok[of r t] by simp
next
  case (statement c i)
  obtain s ts where c: "c = (s, ts)" by force
  from statement.IH c have wf: "wf_db s" and cols: "columns_ok s"
    and bp: "bookings_positive s" and ok: "\<forall>t \<in> set ts. task_ok t"
    by simp_all
  from advance_cases[of i s ts] show ?case
  proof (elim disjE conjE exE)
    assume "advance i (s, ts) = (s, ts)"
    then show ?thesis using wf cols bp ok c by simp
  next
    fix s'
    assume i: "i < length ts" and e: "exec (ts ! i) s = (None, s')"
      and a: "advance i (s, ts) = (s', take i ts @ drop (Suc i) ts)"
    have t: "task_ok (ts ! i)" using ok i by simp
    have "set (take i ts @ drop (Suc i) ts) \<subseteq> set ts"
      using set_take_subset[of i ts] set_drop_subset[of "Suc i" ts] by auto
    then have "\<forall>t \<in> set (take i ts @ drop (Suc i) ts). task_ok t" using ok by blast
    then show ?thesis
      using exec_wf[OF wf e] exec_columns_ok[OF cols t e] exec_bookings_positive[OF bp t e]
      by (simp add: c a)
  next
    fix t' s'
    assume i: "i < length ts" and e: "exec (ts ! i) s = (Some t', s')"
      and a: "advance i (s, ts) = (s', ts[i := t'])"
    have t: "task_ok (ts ! i)" using ok i by simp
    have "set (ts[i := t']) \<subseteq> insert t' (set ts)" by (rule set_update_subset_insert)
    then have "\<forall>t \<in> set (ts[i := t']). task_ok t"
      using ok exec_task_ok[OF cols t e] by blast
    then show ?thesis
      using exec_wf[OF wf e] exec_columns_ok[OF cols t e] exec_bookings_positive[OF bp t e]
      by (simp add: c a)
  qed
qed

text \<open>
  Every statement of every handler keeps the constraints of the schema, so they hold
  in every reachable state, whatever the interleaving of the requests.
\<close>

lemma reachable_wf: "reachable s \<Longrightarrow> wf_db s"
  using cfg_invariant by (fastforce simp: reachable_def)

text \<open>
  The seats stored in a reachable state are \<^verbatim>\<open>INTEGER\<close> values.
\<close>

lemma reachable_columns_ok: "reachable s \<Longrightarrow> columns_ok s"
  using cfg_invariant by (fastforce simp: reachable_def)

text \<open>
  Bookings are inserted and updated only with \<open>seats > 0\<close>, so every booking of a
  reachable state has a positive number of seats.
\<close>

lemma reachable_bookings_positive: "reachable s \<Longrightarrow> bookings_positive s"
  using cfg_invariant by (fastforce simp: reachable_def)

lemma finish_task_reachable:
  "reachable_cfg (s, t # ts) \<Longrightarrow> \<exists>ts'. reachable_cfg (finish_task n t s, ts')"
proof (induction n arbitrary: s t)
  case 0
  then show ?case by auto
next
  case (Suc n)
  obtain r s1 where e: "exec t s = (r, s1)" by force
  from reachable_cfg.statement[OF Suc.prems, of 0]
  have adv: "reachable_cfg (advance 0 (s, t # ts))" .
  show ?case
  proof (cases r)
    case None
    then have "advance 0 (s, t # ts) = (s1, ts)" using e by (simp add: advance_def)
    with adv None e show ?thesis by auto
  next
    case (Some t1)
    then have "advance 0 (s, t # ts) = (s1, t1 # ts)" using e by (simp add: advance_def)
    with adv have "reachable_cfg (s1, t1 # ts)" by simp
    from Suc.IH[OF this] Some e show ?thesis by simp
  qed
qed

lemma serve_create_booking:
  "0 < k \<Longrightarrow> snd (create_booking uid eid (Some k) now s)
     = finish_task 4 (T_create_booking_1 uid eid k now) s"
  by (simp add: eval_nat_numeral create_booking_def
        split: list.splits prod.splits sum.splits)

lemma serve_update_booking:
  "0 < k \<Longrightarrow> snd (update_booking uid bid (Some k) s)
     = finish_task 4 (T_update_booking_1 uid bid k) s"
  by (simp add: eval_nat_numeral update_booking_def Let_def
        split: list.splits prod.splits sum.splits)

lemma serve_cancel_booking:
  "snd (cancel_booking uid bid s) = finish_task 4 (T_cancel_booking_1 uid bid) s"
  by (simp add: eval_nat_numeral cancel_booking_def Let_def
        split: list.splits prod.splits sum.splits)

lemma serve_delete_event:
  "snd (delete_event uid eid s) = finish_task 4 (T_delete_event_1 uid eid) s"
  by (simp add: eval_nat_numeral delete_event_def Let_def
        split: list.splits prod.splits sum.splits)

lemma serve_delete_room:
  "snd (delete_room uid room s) = finish_task 4 (T_delete_room_1 uid room) s"
  by (simp add: eval_nat_numeral delete_room_def Let_def
        split: list.splits prod.splits sum.splits)

text \<open>
  Serving a request on its own is running its task to the end.
\<close>

lemma serve_finish:
  "serve r s = (case start r of None \<Rightarrow> s | Some t \<Rightarrow> finish_task 4 t s)"
proof (cases r)
  case (UpdateRoom uid old new)
  then show ?thesis by (simp add: eval_nat_numeral update_room_def)
next
  case (DeleteRoom uid room)
  then show ?thesis by (simp add: serve_delete_room)
next
  case (DeleteEvent uid eid)
  then show ?thesis by (simp add: serve_delete_event)
next
  case (CreateBooking uid eid seats now)
  show ?thesis
  proof (cases seats)
    case None
    then show ?thesis using CreateBooking by (simp add: create_booking_def)
  next
    case (Some k)
    show ?thesis
    proof (cases "0 < k")
      case True
      then show ?thesis using CreateBooking Some by (simp add: serve_create_booking)
    next
      case False
      then show ?thesis using CreateBooking Some by (simp add: create_booking_def)
    qed
  qed
next
  case (UpdateBooking uid bid seats)
  show ?thesis
  proof (cases seats)
    case None
    then show ?thesis using UpdateBooking by (simp add: update_booking_def)
  next
    case (Some k)
    show ?thesis
    proof (cases "0 < k")
      case True
      then show ?thesis using UpdateBooking Some by (simp add: serve_update_booking)
    next
      case False
      then show ?thesis using UpdateBooking Some by (simp add: update_booking_def)
    qed
  qed
next
  case (CancelBooking uid bid)
  then show ?thesis by (simp add: serve_cancel_booking)
qed (simp_all add: eval_nat_numeral)

lemma reachable_serve: "reachable s \<Longrightarrow> reachable (serve r s)"
proof -
  assume "reachable s"
  then obtain ts where cfg: "reachable_cfg (s, ts)" by (auto simp: reachable_def)
  show ?thesis
  proof (cases "start r")
    case None
    then show ?thesis using \<open>reachable s\<close> by (simp add: serve_finish)
  next
    case (Some t)
    from reachable_cfg.arrive[OF cfg Some] have "reachable_cfg (s, t # ts)" .
    from finish_task_reachable[OF this, of 4] show ?thesis
      using Some by (auto simp: serve_finish reachable_def)
  qed
qed

lemma reachable_empty: "reachable empty_db"
  using reachable_cfg.init by (auto simp: reachable_def)

lemma reachable_run: "reachable s \<Longrightarrow> reachable (run rs s)"
  by (induction rs arbitrary: s) (simp_all add: reachable_serve)

lemma reachable_schedule: "reachable_cfg c \<Longrightarrow> reachable_cfg (schedule is c)"
  by (induction "is" arbitrary: c) (simp_all add: reachable_cfg.statement)

lemmas handler_defs = register_def insert_user_def bcrypt_hash_def create_event_def
  insert_event_def event_columns_def create_booking_def insert_booking_def bookings_of_def
  event_by_id_def take_seats_def seats_plus_def update_event_def update_events_def
  set_event_def cancel_booking_def booking_by_id_def delete_booking_def return_seats_def
  delete_event_def delete_bookings_of_event_def delete_events_def update_booking_def
  set_booking_seats_def update_profile_def update_user_def set_profile_def varchar100_def
  in_int4_def

lemma demo_db_run: "run demo_requests empty_db = demo_db"
  by (simp add: demo_defs empty_db_def handler_defs Let_def)

lemma reachable_demo_db: "reachable demo_db"
  using reachable_run[OF reachable_empty, of demo_requests] by (simp add: demo_db_run)

lemma neg_db_run: "run (butlast negative_seats_requests) empty_db = neg_db"
proof -
  have "run (butlast negative_seats_requests) empty_db
          = serve (UpdateEvent 1 1 (concert_fields\<lparr>f_available_seats := - 5\<rparr>))
              (run demo_requests empty_db)"
    by (simp add: negative_seats_requests_def demo_requests_def)
  also have "\<dots> = neg_db"
    unfolding demo_db_run by (simp add: demo_defs handler_defs)
  finally show ?thesis .
qed


lemma big_db_run: "run big_requests empty_db = big_db"
proof -
  have "run big_requests empty_db
          = serve (UpdateEvent 1 1 (concert_fields\<lparr>f_available_seats := 2147483647\<rparr>))
              (run demo_requests empty_db)"
    by (simp add: big_requests_def demo_requests_def)
  also have "\<dots> = big_db"
    unfolding demo_db_run by (simp add: demo_defs handler_defs)
  finally show ?thesis .
qed

lemma reachable_big_db: "reachable big_db"
  using reachable_run[OF reachable_empty, of big_requests] by (simp add: big_db_run)

section \<open>Seat accounting of booking creation\<close>

lemma reachable_event:
  assumes "reachable s" "event_seats s eid = Some N"
  shows "\<exists>e. event_by_id s eid = [e] \<and> e_available_seats e = N \<and> e_id e = eid
            \<and> e \<in> set (events s) \<and> in_int4 N"
proof -
  from event_by_id_of_seats[OF reachable_wf[OF assms(1)] assms(2)] obtain e where
    e: "event_by_id s eid = [e]" "e_available_seats e = N" "e_id e = eid" by blast
  then have "e \<in> set (events s)"
    using filter_eq_ConsD[of "\<lambda>e. e_id e = eid" "events s" e "[]"] by (simp add: event_by_id_def)
  moreover from this have "in_int4 N"
    using reachable_columns_ok[OF assms(1)] e(2) by (auto simp: columns_ok_def list_all_iff)
  ultimately show ?thesis using e by blast
qed

lemma reachable_booking:
  assumes "reachable s" "B \<in> set (bookings s)"
  shows "0 < b_seats B" "in_int4 (b_seats B)"
  using reachable_bookings_positive[OF assms(1)] reachable_columns_ok[OF assms(1)] assms(2)
  by (auto simp: bookings_positive_def columns_ok_def list_all_iff)




section \<open>Cancelling a booking\<close>

text \<open>
  Claim C4, amended. In a reachable state, let \<open>B\<close> be a booking of \<open>k\<close> seats held by
  the requesting user, on an event with \<open>N\<close> available seats; the request is served
  with no statement of another request in between. When \<open>N + k\<close> fits the column
  (\<open>N + k \<le> 2147483647\<close>), cancelling \<open>B\<close> succeeds, deletes exactly the row of \<open>B\<close> (it
  is gone afterwards, the other bookings stay), and leaves the event with \<open>N + k\<close>
  seats and every other event as it was. When \<open>N + k\<close> does not fit, the answer is 500:
  the row of \<open>B\<close> is deleted and the seats of the event are not restored. When no
  booking matches both the booking id and the user, cancelling answers
  \<open>NotFoundOrForbidden\<close> and leaves the store unchanged.
\<close>

theorem cancel_booking_restores_seats:
  "(reachable s \<longrightarrow> B \<in> set (bookings s) \<longrightarrow> b_user_id B = user_id \<longrightarrow> b_seats B = k
        \<longrightarrow> event_seats s (b_event_id B) = Some N \<longrightarrow>
      (N + k \<le> 2147483647 \<longrightarrow>
         fst (cancel_booking user_id (b_id B) s) = Inr ''Booking cancelled successfully''
         \<and> bookings (snd (cancel_booking user_id (b_id B) s)) =
              filter (\<lambda>b. b_id b \<noteq> b_id B) (bookings s)
         \<and> B \<notin> set (bookings (snd (cancel_booking user_id (b_id B) s)))
         \<and> event_seats (snd (cancel_booking user_id (b_id B) s)) (b_event_id B) = Some (N + k)
         \<and> (\<forall>eid. eid \<noteq> b_event_id B \<longrightarrow>
               event_seats (snd (cancel_booking user_id (b_id B) s)) eid = event_seats s eid))
      \<and> (2147483647 < N + k \<longrightarrow>
           cancel_booking user_id (b_id B) s =
             (Inl (500, ''Failed to cancel booking''),
              s\<lparr>bookings := filter (\<lambda>b. b_id b \<noteq> b_id B) (bookings s)\<rparr>)))
   \<and> ((\<forall>b \<in> set (bookings s). \<not> (b_id b = booking_id \<and> b_user_id b = user_id)) \<longrightarrow>
        cancel_booking user_id booking_id s = (Inl BookingNotFoundOrForbidden, s))"
proof (intro conjI impI)
  assume "\<forall>b \<in> set (bookings s). \<not> (b_id b = booking_id \<and> b_user_id b = user_id)"
  then have "booking_by_id s booking_id user_id = []"
    by (simp add: booking_by_id_def filter_empty_conv)
  then show "cancel_booking user_id booking_id s = (Inl BookingNotFoundOrForbidden, s)"
    by (simp add: cancel_booking_def BookingNotFoundOrForbidden_def)
next
  assume r: "reachable s" and B: "B \<in> set (bookings s)" and u: "b_user_id B = user_id"
    and k: "b_seats B = k" and N: "event_seats s (b_event_id B) = Some N"
  have wf: "wf_db s" using r by (rule reachable_wf)
  have kr: "0 < k" "in_int4 k" using reachable_booking[OF r B] k by simp_all
  from reachable_event[OF r N] obtain e where e: "event_by_id s (b_event_id B) = [e]"
    "e_available_seats e = N" "in_int4 N" by blast
  have sel: "booking_by_id s (b_id B) user_id = [B]"
    using booking_by_id_single[OF wf B] u by simp
  have "distinct (map b_id (bookings s))" using wf by (simp add: wf_defs)
  then have "\<forall>b \<in> set (bookings s). b_id b = b_id B \<longrightarrow> b_user_id b = user_id"
    using B u by (metis distinct_map inj_onD)
  then have del: "filter (\<lambda>b. \<not> (b_id b = b_id B \<and> b_user_id b = user_id)) (bookings s) =
     filter (\<lambda>b. b_id b \<noteq> b_id B) (bookings s)"
    by (intro filter_cong) auto
  let ?s1 = "s\<lparr>bookings := filter (\<lambda>b. b_id b \<noteq> b_id B) (bookings s)\<rparr>"
  have delb: "delete_booking (b_id B) user_id s = ?s1"
    by (simp only: delete_booking_def del)
  {
    assume le: "N + k \<le> 2147483647"
    then have "in_int4 (N + k)" using kr e(3) by (simp add: in_int4_def)
    then have rs: "return_seats k (b_event_id B) ?s1 = Inr (seats_plus k (b_event_id B) ?s1)"
      using kr by (simp add: return_seats_def e)
    have cb: "cancel_booking user_id (b_id B) s =
       (Inr ''Booking cancelled successfully'', seats_plus k (b_event_id B) ?s1)"
      by (simp add: cancel_booking_def sel k delb rs)
    show "fst (cancel_booking user_id (b_id B) s) = Inr ''Booking cancelled successfully''"
      by (simp add: cb)
    show "bookings (snd (cancel_booking user_id (b_id B) s)) =
             filter (\<lambda>b. b_id b \<noteq> b_id B) (bookings s)"
      by (simp add: cb)
    then show "B \<notin> set (bookings (snd (cancel_booking user_id (b_id B) s)))"
      by simp
    show "event_seats (snd (cancel_booking user_id (b_id B) s)) (b_event_id B) = Some (N + k)"
      using N by (simp add: cb event_seats_seats_plus)
    show "\<forall>eid. eid \<noteq> b_event_id B \<longrightarrow>
              event_seats (snd (cancel_booking user_id (b_id B) s)) eid = event_seats s eid"
      by (simp add: cb event_seats_seats_plus)
  }
  {
    assume gt: "2147483647 < N + k"
    then have "\<not> in_int4 (N + k)" by (simp add: in_int4_def)
    then have rs: "return_seats k (b_event_id B) ?s1 = Inl NumericValueOutOfRange"
      by (simp add: return_seats_def e)
    show "cancel_booking user_id (b_id B) s = (Inl (500, ''Failed to cancel booking''), ?s1)"
      by (simp add: cancel_booking_def sel k delb rs)
  }
qed

theorem cancel_booking_restores_seats_witness:
  "reachable demo_db \<and> bobs_booking \<in> set (bookings demo_db) \<and> b_user_id bobs_booking = 2
   \<and> b_seats bobs_booking = 3 \<and> event_seats demo_db (b_event_id bobs_booking) = Some 2
   \<and> fst (cancel_booking 2 (b_id bobs_booking) demo_db) = Inr ''Booking cancelled successfully''
   \<and> bookings (snd (cancel_booking 2 (b_id bobs_booking) demo_db)) = []
   \<and> event_seats (snd (cancel_booking 2 (b_id bobs_booking) demo_db)) 1 = Some 5
   \<and> reachable big_db \<and> bobs_booking \<in> set (bookings big_db)
   \<and> event_seats big_db (b_event_id bobs_booking) = Some 2147483647
   \<and> cancel_booking 2 (b_id bobs_booking) big_db =
        (Inl (500, ''Failed to cancel booking''), big_db\<lparr>bookings := []\<rparr>)
   \<and> booking_by_id demo_db 1 3 = []
   \<and> cancel_booking 3 1 demo_db = (Inl BookingNotFoundOrForbidden, demo_db)"
proof -
  have h2: "bobs_booking \<in> set (bookings demo_db)" by (simp add: demo_defs)
  have h3: "b_user_id bobs_booking = 2" by (simp add: demo_defs)
  have h4: "b_seats bobs_booking = 3" by (simp add: demo_defs)
  have h5: "event_seats demo_db (b_event_id bobs_booking) = Some 2"
    by (simp add: event_seats_def event_by_id_def demo_defs)
  have h6: "\<forall>b \<in> set (bookings demo_db). \<not> (b_id b = 1 \<and> b_user_id b = 3)"
    by (simp add: demo_defs)
  have h7: "(2::int) + 3 \<le> 2147483647" by simp
  have g2: "bobs_booking \<in> set (bookings big_db)" by (simp add: demo_defs)
  have g5: "event_seats big_db (b_event_id bobs_booking) = Some 2147483647"
    by (simp add: event_seats_def event_by_id_def demo_defs)
  have g7: "(2147483647::int) < 2147483647 + 3" by simp
  have e: "b_event_id bobs_booking = 1" "bookings demo_db = [bobs_booking]"
    "bookings big_db = [bobs_booking]"
    by (simp_all add: demo_defs)
  note A = cancel_booking_restores_seats[where s = demo_db and B = bobs_booking
      and user_id = 2 and k = 3 and N = 2, THEN conjunct1, rule_format,
      OF reachable_demo_db h2 h3 h4 h5, THEN conjunct1, rule_format, OF h7]
  note B = cancel_booking_restores_seats[where s = big_db and B = bobs_booking
      and user_id = 2 and k = 3 and N = 2147483647, THEN conjunct1, rule_format,
      OF reachable_big_db g2 h3 h4 g5, THEN conjunct2, rule_format, OF g7]
  note C = cancel_booking_restores_seats[where s = demo_db and user_id = 3
      and booking_id = 1, THEN conjunct2, THEN mp, OF h6]
  have h6': "booking_by_id demo_db 1 3 = []" by (simp add: booking_by_id_def demo_defs)
  show ?thesis
    using A B C reachable_demo_db reachable_big_db h2 h3 h4 h5 g2 g5 h6' by (simp add: e)
qed

text \<open>
  A cancellation does not always restore the seats: the concert has \<open>2147483647\<close>
  seats after its owner's update, Bob cancels his booking of three seats, the booking
  is deleted, the update of the event fails, the answer is 500 and the event keeps
  its \<open>2147483647\<close> seats.
\<close>

theorem cancel_booking_seats_overflow:
  "reachable big_db \<and> bobs_booking \<in> set (bookings big_db) \<and> b_id bobs_booking = 1
   \<and> b_user_id bobs_booking = 2 \<and> b_seats bobs_booking = 3 \<and> b_event_id bobs_booking = 1
   \<and> event_seats big_db 1 = Some 2147483647
   \<and> cancel_booking 2 1 big_db
        = (Inl (500, ''Failed to cancel booking''), big_db\<lparr>bookings := []\<rparr>)
   \<and> event_seats (big_db\<lparr>bookings := []\<rparr>) 1 = Some 2147483647"
  using reachable_big_db
  by (simp add: event_seats_def event_by_id_def cancel_booking_def booking_by_id_def
        delete_booking_def return_seats_def in_int4_def demo_defs)

section \<open>Changing the seats of a booking\<close>

lemma create_booking_InrD:
  assumes "create_booking user_id event_id (Some k) now s = (Inr row, s1)"
  shows "0 < k \<and> in_int4 k \<and> bookings_of s event_id user_id = []
     \<and> (\<exists>e es. event_by_id s event_id = e # es \<and> k \<le> e_available_seats e)
     \<and> list_all (\<lambda>e. in_int4 (e_available_seats e - k)) (event_by_id s event_id)
     \<and> bookings_id_seq s + 1 \<notin> b_id ` set (bookings s)
     \<and> row = \<lparr>b_id = bookings_id_seq s + 1, b_event_id = event_id, b_user_id = user_id,
              b_seats = k, b_created_at = now\<rparr>
     \<and> s1 = seats_plus (- k) event_id
              (s\<lparr>bookings_id_seq := bookings_id_seq s + 1, bookings := bookings s @ [row]\<rparr>)"
proof -
  from assms have k: "0 < k" and nb: "bookings_of s event_id user_id = []"
    by (auto simp: create_booking_def split: if_splits)
  from assms k nb obtain e es where ev: "event_by_id s event_id = e # es"
    "k \<le> e_available_seats e"
    by (cases "event_by_id s event_id") (auto simp: create_booking_def split: if_splits)
  obtain r s' where ins: "insert_booking event_id user_id (Some k) now s = (r, s')" by force
  from assms k nb ev ins obtain s2 where r: "r = Inr row" and ts: "take_seats k event_id s' = Inr s2"
    and s1: "s1 = s2"
    by (cases r; cases "take_seats k event_id s'") (auto simp: create_booking_def)
  from ins r have fresh: "bookings_id_seq s + 1 \<notin> b_id ` set (bookings s)"
    and row: "row = \<lparr>b_id = bookings_id_seq s + 1, b_event_id = event_id, b_user_id = user_id,
              b_seats = k, b_created_at = now\<rparr>"
    and s': "s' = s\<lparr>bookings_id_seq := bookings_id_seq s + 1, bookings := bookings s @ [row]\<rparr>"
    by (auto simp: insert_booking_def Let_def split: if_splits)
  from take_seats_InrD[OF ts] have "s2 = seats_plus (- k) event_id s'" "in_int4 k"
    "list_all (\<lambda>e. in_int4 (e_available_seats e - k)) (event_by_id s' event_id)"
    by simp_all
  then show ?thesis using k nb ev fresh row s' s1 by auto
qed

text \<open>
  Claim C5, amended. In a reachable state, let \<open>B\<close> be a booking of \<open>a\<close> seats held by
  the requesting user, on an event with \<open>N\<close> available seats, and let \<open>b > 0\<close> with
  \<open>b - a \<le> N\<close>; the request is served with no statement of another request in
  between. When \<open>b\<close> and \<open>N + (a - b)\<close> fit their columns (both at most \<open>2147483647\<close>),
  updating \<open>B\<close> to \<open>b\<close> seats succeeds, sets the seats of \<open>B\<close> (and of no other booking)
  to \<open>b\<close>, and leaves the event with \<open>N + (a - b)\<close> seats and every other event as it
  was. When \<open>b\<close> does not fit, the answer is 500 and the store is unchanged. When \<open>b\<close>
  fits and \<open>N + (a - b)\<close> does not, the answer is 500: the seats of \<open>B\<close> are set to \<open>b\<close>
  and the seats of the event are not adjusted. Round trip: when creating a booking of
  \<open>k\<close> seats has succeeded, updating that booking to \<open>k\<close> seats succeeds and leaves the
  store identical to the store before the update.
\<close>

theorem update_booking_adjusts_seats:
  "(reachable s \<longrightarrow> B \<in> set (bookings s) \<longrightarrow> b_user_id B = user_id \<longrightarrow> b_seats B = a
      \<longrightarrow> event_seats s (b_event_id B) = Some N \<longrightarrow> 0 < b \<longrightarrow> b - a \<le> N \<longrightarrow>
      (b \<le> 2147483647 \<longrightarrow> N + (a - b) \<le> 2147483647 \<longrightarrow>
         fst (update_booking user_id (b_id B) (Some b) s) = Inr (Some (B\<lparr>b_seats := b\<rparr>))
         \<and> bookings (snd (update_booking user_id (b_id B) (Some b) s)) =
              map (\<lambda>x. if x = B then B\<lparr>b_seats := b\<rparr> else x) (bookings s)
         \<and> event_seats (snd (update_booking user_id (b_id B) (Some b) s)) (b_event_id B)
              = Some (N + (a - b))
         \<and> (\<forall>eid. eid \<noteq> b_event_id B \<longrightarrow>
               event_seats (snd (update_booking user_id (b_id B) (Some b) s)) eid
                 = event_seats s eid))
      \<and> (2147483647 < b \<longrightarrow>
           update_booking user_id (b_id B) (Some b) s
             = (Inl (500, ''Failed to update booking''), s))
      \<and> (b \<le> 2147483647 \<longrightarrow> 2147483647 < N + (a - b) \<longrightarrow>
           update_booking user_id (b_id B) (Some b) s
             = (Inl (500, ''Failed to update booking''),
                s\<lparr>bookings := map (\<lambda>x. if x = B then B\<lparr>b_seats := b\<rparr> else x) (bookings s)\<rparr>)))
   \<and> (create_booking user_id event_id (Some k) now s = (Inr row, s1) \<longrightarrow>
        update_booking user_id (b_id row) (Some k) s1 = (Inr (Some row), s1))"
proof (intro conjI impI)
  assume cb: "create_booking user_id event_id (Some k) now s = (Inr row, s1)"
  from create_booking_InrD[OF cb] obtain e es where
    k: "0 < k" "in_int4 k" and ev: "event_by_id s event_id = e # es" "k \<le> e_available_seats e"
    and rng: "list_all (\<lambda>e. in_int4 (e_available_seats e - k)) (event_by_id s event_id)"
    and fresh: "bookings_id_seq s + 1 \<notin> b_id ` set (bookings s)"
    and row: "row = \<lparr>b_id = bookings_id_seq s + 1, b_event_id = event_id, b_user_id = user_id,
              b_seats = k, b_created_at = now\<rparr>"
    and s1: "s1 = seats_plus (- k) event_id
              (s\<lparr>bookings_id_seq := bookings_id_seq s + 1, bookings := bookings s @ [row]\<rparr>)"
    by blast
  have old: "\<forall>x \<in> set (bookings s). b_id x \<noteq> b_id row"
    using fresh row by (metis booking_row.select_convs(1) imageI)
  have bs1: "bookings s1 = bookings s @ [row]" by (simp add: s1)
  have sel: "booking_by_id s1 (b_id row) user_id = [row]"
    using old by (simp add: booking_by_id_def bs1 filter_empty_conv) (simp add: row)
  have ev1: "event_by_id s1 event_id =
               map (\<lambda>e. e\<lparr>e_available_seats := e_available_seats e - k\<rparr>) (e # es)"
    unfolding s1 by (simp add: event_by_id_seats_plus ev)
  have rows: "filter (\<lambda>x. b_id x = b_id row) (bookings s1) = [row]"
    using old by (simp add: bs1 filter_empty_conv)
  have keep: "map (\<lambda>x. if b_id x = b_id row then x\<lparr>b_seats := k\<rparr> else x) (bookings s1)
                = bookings s1"
    using old by (intro map_idI) (auto simp: bs1 row)
  have "row\<lparr>b_seats := k\<rparr> = row" by (simp add: row)
  then have sbs: "set_booking_seats k (b_id row) s1 = Inr ([row], s1)"
    using k(2) by (simp add: set_booking_seats_def rows keep)
  have "list_all (\<lambda>e. in_int4 (e_available_seats e)) (event_by_id s1 event_id)"
    using rng ev(1) unfolding ev1 by (simp add: list_all_iff)
  then have ts: "take_seats 0 event_id s1 = Inr s1"
    by (simp add: take_seats_def seats_plus_zero in_int4_def)
  have er: "b_event_id row = event_id" "b_seats row = k" by (simp_all add: row)
  have first: "event_by_id s1 event_id = e\<lparr>e_available_seats := e_available_seats e - k\<rparr>
                 # map (\<lambda>e. e\<lparr>e_available_seats := e_available_seats e - k\<rparr>) es"
    by (simp add: ev1)
  show "update_booking user_id (b_id row) (Some k) s1 = (Inr (Some row), s1)"
    using k(1) ev(2)
    by (simp add: update_booking_def sel Let_def er first sbs ts)
next
  assume r: "reachable s" and B: "B \<in> set (bookings s)" and u: "b_user_id B = user_id"
    and a: "b_seats B = a" and N: "event_seats s (b_event_id B) = Some N"
    and b: "0 < b" and le: "b - a \<le> N"
  have wf: "wf_db s" using r by (rule reachable_wf)
  have ar: "0 < a" "in_int4 a" using reachable_booking[OF r B] a by simp_all
  from reachable_event[OF r N] obtain e where e: "event_by_id s (b_event_id B) = [e]"
    "e_available_seats e = N" "in_int4 N" by blast
  have sel: "booking_by_id s (b_id B) user_id = [B]"
    using booking_by_id_single[OF wf B] u by simp
  have dist: "distinct (map b_id (bookings s))" using wf by (simp add: wf_defs)
  have same: "\<forall>x \<in> set (bookings s). (b_id x = b_id B) = (x = B)"
    using dist B by (metis distinct_map inj_onD)
  have rows: "filter (\<lambda>x. b_id x = b_id B) (bookings s) = [B]"
    using filter_key_singleton[OF dist B, of "\<lambda>x. True"] by simp
  have upd: "map (\<lambda>x. if b_id x = b_id B then x\<lparr>b_seats := b\<rparr> else x) (bookings s) =
             map (\<lambda>x. if x = B then B\<lparr>b_seats := b\<rparr> else x) (bookings s)"
    using same by (intro map_cong) auto
  let ?s1 = "s\<lparr>bookings := map (\<lambda>x. if x = B then B\<lparr>b_seats := b\<rparr> else x) (bookings s)\<rparr>"
  {
    assume big: "2147483647 < b"
    then have "set_booking_seats b (b_id B) s = Inl NumericValueOutOfRange"
      by (simp add: set_booking_seats_def in_int4_def)
    then show "update_booking user_id (b_id B) (Some b) s
             = (Inl (500, ''Failed to update booking''), s)"
      using b le by (simp add: update_booking_def sel Let_def e a)
  }
  {
    assume fit: "b \<le> 2147483647"
    then have inb: "in_int4 b" using b by (simp add: in_int4_def)
    then have sbs: "set_booking_seats b (b_id B) s = Inr ([B\<lparr>b_seats := b\<rparr>], ?s1)"
      by (simp add: set_booking_seats_def rows upd)
    have ind: "in_int4 (b - a)" using inb ar b by (simp add: in_int4_def)
    {
      assume "N + (a - b) \<le> 2147483647"
      then have "in_int4 (N - (b - a))" using le by (simp add: in_int4_def)
      then have ts: "take_seats (b - a) (b_event_id B) ?s1
                       = Inr (seats_plus (- (b - a)) (b_event_id B) ?s1)"
        using ind by (simp add: take_seats_def e)
      have ub: "update_booking user_id (b_id B) (Some b) s =
         (Inr (Some (B\<lparr>b_seats := b\<rparr>)), seats_plus (- (b - a)) (b_event_id B) ?s1)"
        using b le by (simp add: update_booking_def sel Let_def e a sbs ts)
      show "fst (update_booking user_id (b_id B) (Some b) s) = Inr (Some (B\<lparr>b_seats := b\<rparr>))"
        by (simp add: ub)
      show "bookings (snd (update_booking user_id (b_id B) (Some b) s)) =
               map (\<lambda>x. if x = B then B\<lparr>b_seats := b\<rparr> else x) (bookings s)"
        by (simp add: ub)
      show "event_seats (snd (update_booking user_id (b_id B) (Some b) s)) (b_event_id B)
               = Some (N + (a - b))"
        using N by (simp add: ub event_seats_seats_plus)
      show "\<forall>eid. eid \<noteq> b_event_id B \<longrightarrow>
                event_seats (snd (update_booking user_id (b_id B) (Some b) s)) eid
                  = event_seats s eid"
        by (simp add: ub event_seats_seats_plus)
    }
    {
      assume "2147483647 < N + (a - b)"
      then have "\<not> in_int4 (N - (b - a))" by (simp add: in_int4_def)
      then have ts: "take_seats (b - a) (b_event_id B) ?s1 = Inl NumericValueOutOfRange"
        by (simp add: take_seats_def e)
      show "update_booking user_id (b_id B) (Some b) s
             = (Inl (500, ''Failed to update booking''), ?s1)"
        using b le by (simp add: update_booking_def sel Let_def e a sbs ts)
    }
  }
qed

theorem update_booking_adjusts_seats_witness:
  "reachable demo_db \<and> bobs_booking \<in> set (bookings demo_db) \<and> b_user_id bobs_booking = 2
   \<and> b_seats bobs_booking = 3 \<and> event_seats demo_db (b_event_id bobs_booking) = Some 2
   \<and> fst (update_booking 2 (b_id bobs_booking) (Some 5) demo_db)
        = Inr (Some (bobs_booking\<lparr>b_seats := 5\<rparr>))
   \<and> bookings (snd (update_booking 2 (b_id bobs_booking) (Some 5) demo_db))
        = [bobs_booking\<lparr>b_seats := 5\<rparr>]
   \<and> event_seats (snd (update_booking 2 (b_id bobs_booking) (Some 5) demo_db)) 1 = Some 0
   \<and> reachable big_db \<and> bobs_booking \<in> set (bookings big_db)
   \<and> event_seats big_db (b_event_id bobs_booking) = Some 2147483647
   \<and> update_booking 2 (b_id bobs_booking) (Some 2147483650) big_db
        = (Inl (500, ''Failed to update booking''), big_db)
   \<and> update_booking 2 (b_id bobs_booking) (Some 1) big_db
        = (Inl (500, ''Failed to update booking''),
           big_db\<lparr>bookings := [bobs_booking\<lparr>b_seats := 1\<rparr>]\<rparr>)
   \<and> create_booking 3 1 (Some 2) 400 demo_db =
        (Inr carols_booking, snd (create_booking 3 1 (Some 2) 400 demo_db))
   \<and> update_booking 3 (b_id carols_booking) (Some 2) (snd (create_booking 3 1 (Some 2) 400 demo_db))
        = (Inr (Some carols_booking), snd (create_booking 3 1 (Some 2) 400 demo_db))"
proof -
  have h2: "bobs_booking \<in> set (bookings demo_db)" by (simp add: demo_defs)
  have h3: "b_user_id bobs_booking = 2" by (simp add: demo_defs)
  have h4: "b_seats bobs_booking = 3" by (simp add: demo_defs)
  have h5: "event_seats demo_db (b_event_id bobs_booking) = Some 2"
    by (simp add: event_seats_def event_by_id_def demo_defs)
  have h6: "create_booking 3 1 (Some 2) 400 demo_db =
        (Inr carols_booking, snd (create_booking 3 1 (Some 2) 400 demo_db))"
    by (simp add: create_booking_def insert_booking_def bookings_of_def event_by_id_def
          take_seats_def in_int4_def Let_def demo_defs)
  have g2: "bobs_booking \<in> set (bookings big_db)" by (simp add: demo_defs)
  have g5: "event_seats big_db (b_event_id bobs_booking) = Some 2147483647"
    by (simp add: event_seats_def event_by_id_def demo_defs)
  have e: "b_event_id bobs_booking = 1" "bookings demo_db = [bobs_booking]"
    "bookings big_db = [bobs_booking]"
    by (simp_all add: demo_defs)
  have n1: "(0::int) < 5" "(5::int) - 3 \<le> 2" "(5::int) \<le> 2147483647"
    "(2::int) + (3 - 5) \<le> 2147483647" by simp_all
  have n2: "(0::int) < 2147483650" "(2147483650::int) - 3 \<le> 2147483647"
    "(2147483647::int) < 2147483650" by simp_all
  have n3: "(0::int) < 1" "(1::int) - 3 \<le> 2147483647" "(1::int) \<le> 2147483647"
    "(2147483647::int) < 2147483647 + (3 - 1)" by simp_all
  note T = update_booking_adjusts_seats[where B = bobs_booking and user_id = 2 and a = 3,
      THEN conjunct1, rule_format]
  note A = T[where s = demo_db and N = 2 and b = 5,
      OF reachable_demo_db h2 h3 h4 h5 n1(1,2), THEN conjunct1, rule_format, OF n1(3,4)]
  note B = T[where s = big_db and N = 2147483647 and b = 2147483650,
      OF reachable_big_db g2 h3 h4 g5 n2(1,2), THEN conjunct2, THEN conjunct1, rule_format,
      OF n2(3)]
  note C = T[where s = big_db and N = 2147483647 and b = 1,
      OF reachable_big_db g2 h3 h4 g5 n3(1,2), THEN conjunct2, THEN conjunct2, rule_format,
      OF n3(3,4)]
  note D = update_booking_adjusts_seats[where s = demo_db and user_id = 3 and event_id = 1
      and k = 2 and now = 400 and row = carols_booking, THEN conjunct2, rule_format, OF h6]
  show ?thesis
    using A B C D reachable_demo_db reachable_big_db h2 h3 h4 h5 h6 g2 g5 by (simp add: e)
qed

text \<open>
  An update does not always adjust the seats of the event: the concert has
  \<open>2147483647\<close> seats after its owner's update, Bob lowers his booking from three
  seats to one, the booking is changed, the update of the event fails, the answer is
  500 and the event keeps its \<open>2147483647\<close> seats.
\<close>

theorem update_booking_seats_overflow:
  "reachable big_db \<and> bobs_booking \<in> set (bookings big_db) \<and> b_id bobs_booking = 1
   \<and> b_user_id bobs_booking = 2 \<and> b_seats bobs_booking = 3 \<and> b_event_id bobs_booking = 1
   \<and> event_seats big_db 1 = Some 2147483647 \<and> (1::int) - 3 \<le> 2147483647
   \<and> update_booking 2 1 (Some 1) big_db
        = (Inl (500, ''Failed to update booking''),
           big_db\<lparr>bookings := [bobs_booking\<lparr>b_seats := 1\<rparr>]\<rparr>)
   \<and> event_seats (big_db\<lparr>bookings := [bobs_booking\<lparr>b_seats := 1\<rparr>]\<rparr>) 1 = Some 2147483647"
  using reachable_big_db
  by (simp add: event_seats_def event_by_id_def update_booking_def booking_by_id_def
        set_booking_seats_def take_seats_def in_int4_def Let_def demo_defs)

section \<open>Order of the checks of booking creation\<close>

text \<open>
  Claim C6. Booking creation checks in this order: a missing \<^verbatim>\<open>seats\<close> or
  \<open>seats \<le> 0\<close> answers \<open>InvalidSeatCount\<close>, whatever the store holds; otherwise an
  existing booking of the user on the event answers \<open>AlreadyBooked\<close>; otherwise a
  missing event answers \<open>NotFound\<close>; otherwise fewer available seats than asked for
  answers \<open>InsufficientSeats\<close>. In each case the store is left unchanged.
\<close>

theorem create_booking_check_order:
  "(create_booking user_id event_id None now s = (Inl InvalidSeatCount, s))
   \<and> (k \<le> 0 \<longrightarrow> create_booking user_id event_id (Some k) now s = (Inl InvalidSeatCount, s))
   \<and> (0 < k \<longrightarrow> bookings_of s event_id user_id \<noteq> [] \<longrightarrow>
        create_booking user_id event_id (Some k) now s = (Inl AlreadyBooked, s))
   \<and> (0 < k \<longrightarrow> bookings_of s event_id user_id = [] \<longrightarrow> event_by_id s event_id = [] \<longrightarrow>
        create_booking user_id event_id (Some k) now s = (Inl NotFound, s))
   \<and> (0 < k \<longrightarrow> bookings_of s event_id user_id = [] \<longrightarrow> event_seats s event_id = Some N
        \<longrightarrow> N < k \<longrightarrow>
        create_booking user_id event_id (Some k) now s = (Inl InsufficientSeats, s))"
  by (auto simp: create_booking_def InvalidSeatCount_def AlreadyBooked_def NotFound_def
        InsufficientSeats_def event_seats_def split: list.splits)

theorem create_booking_check_order_witness:
  "create_booking 3 1 (Some 0) 400 demo_db = (Inl InvalidSeatCount, demo_db)
   \<and> bookings_of demo_db 1 2 \<noteq> []
   \<and> create_booking 2 1 (Some 1) 400 demo_db = (Inl AlreadyBooked, demo_db)
   \<and> bookings_of demo_db 7 3 = [] \<and> event_by_id demo_db 7 = []
   \<and> create_booking 3 7 (Some 1) 400 demo_db = (Inl NotFound, demo_db)
   \<and> bookings_of demo_db 1 3 = [] \<and> event_seats demo_db 1 = Some 2
   \<and> create_booking 3 1 (Some 3) 400 demo_db = (Inl InsufficientSeats, demo_db)"
proof -
  have h1: "bookings_of demo_db 1 2 \<noteq> []" by (simp add: bookings_of_def demo_defs)
  have h2: "bookings_of demo_db 7 3 = []" "event_by_id demo_db 7 = []"
    by (simp_all add: bookings_of_def event_by_id_def demo_defs)
  have h3: "bookings_of demo_db 1 3 = []" "event_seats demo_db 1 = Some 2"
    by (simp_all add: bookings_of_def event_seats_def event_by_id_def demo_defs)
  from create_booking_check_order[where user_id = 3 and event_id = 1 and now = 400
         and s = demo_db and k = 0]
       create_booking_check_order[where user_id = 2 and event_id = 1 and now = 400
         and s = demo_db and k = 1]
       create_booking_check_order[where user_id = 3 and event_id = 7 and now = 400
         and s = demo_db and k = 1]
       create_booking_check_order[where user_id = 3 and event_id = 1 and now = 400
         and s = demo_db and k = 3 and N = 2]
  show ?thesis using h1 h2 h3 by simp
qed

section \<open>Available seats under booking operations\<close>

lemma exec_statements_left:
  "exec t s = (Some t1, s1) \<Longrightarrow> statements_left t1 < statements_left t"
  by (cases t) (auto split: if_splits list.splits prod.splits sum.splits)

lemma statements_left_le: "statements_left t \<le> 4"
  by (cases t) simp_all

lemma statements_left_pos: "0 < statements_left t"
  by (cases t) simp_all

lemma finish_task_cfg:
  "reachable_cfg (s, t # ts) \<Longrightarrow> statements_left t \<le> n
     \<Longrightarrow> reachable_cfg (finish_task n t s, ts)"
proof (induction n arbitrary: s t)
  case 0
  then show ?case using statements_left_pos[of t] by simp
next
  case (Suc n)
  obtain r s1 where e: "exec t s = (r, s1)" by force
  from reachable_cfg.statement[OF Suc.prems(1), of 0]
  have adv: "reachable_cfg (advance 0 (s, t # ts))" .
  show ?case
  proof (cases r)
    case None
    then have "advance 0 (s, t # ts) = (s1, ts)" using e by (simp add: advance_def)
    with adv None e show ?thesis by simp
  next
    case (Some t1)
    then have "advance 0 (s, t # ts) = (s1, t1 # ts)" using e by (simp add: advance_def)
    with adv have c: "reachable_cfg (s1, t1 # ts)" by simp
    from exec_statements_left[of t s t1 s1] e Some Suc.prems(2)
    have "statements_left t1 \<le> n" by simp
    from Suc.IH[OF c this] Some e show ?thesis by simp
  qed
qed

text \<open>
  A request served on its own leaves the tasks in flight as they were.
\<close>

lemma serve_cfg: "reachable_cfg (s, ts) \<Longrightarrow> reachable_cfg (serve r s, ts)"
proof (cases "start r")
  case None
  assume "reachable_cfg (s, ts)"
  then show ?thesis using None by (simp add: serve_finish)
next
  case (Some t)
  assume "reachable_cfg (s, ts)"
  from reachable_cfg.arrive[OF this Some] have "reachable_cfg (s, t # ts)" .
  from finish_task_cfg[OF this statements_left_le] show ?thesis
    using Some by (simp add: serve_finish)
qed

lemma run_cfg: "reachable_cfg (s, ts) \<Longrightarrow> reachable_cfg (run rs s, ts)"
  by (induction rs arbitrary: s) (simp_all add: serve_cfg)

lemma demo_db_idle: "reachable_cfg (demo_db, [])"
  using run_cfg[OF reachable_cfg.init, of demo_requests] by (simp add: demo_db_run)



lemma event_seats_cong: "events s' = events s \<Longrightarrow> event_seats s' eid = event_seats s eid"
  by (simp add: event_seats_def event_by_id_def)

lemma seats_plus_keeps:
  assumes "event_seats s eid = Some n" "0 \<le> n"
    and "eid = eid' \<longrightarrow> 0 \<le> n + d"
    and "events s' = events (seats_plus d eid' s)"
  shows "\<exists>n'. event_seats s' eid = Some n' \<and> 0 \<le> n'"
  using assms(1,2,3) event_seats_cong[OF assms(4), of eid]
  by (auto simp: event_seats_seats_plus)

lemma create_booking_events:
  "events (snd (create_booking uid eid seats now s)) = events s
   \<or> (\<exists>k e es. seats = Some k \<and> event_by_id s eid = e # es \<and> k \<le> e_available_seats e
        \<and> events (snd (create_booking uid eid seats now s)) = events (seats_plus (- k) eid s))"
proof (cases "\<exists>row s1. create_booking uid eid seats now s = (Inr row, s1)")
  case True
  then obtain row s1 where c: "create_booking uid eid seats now s = (Inr row, s1)" by blast
  then obtain k where k: "seats = Some k" by (cases seats) (auto simp: create_booking_def)
  from create_booking_InrD[OF c[unfolded k]] obtain e es where
    ev: "event_by_id s eid = e # es" "k \<le> e_available_seats e"
    and s1: "s1 = seats_plus (- k) eid
              (s\<lparr>bookings_id_seq := bookings_id_seq s + 1, bookings := bookings s @ [row]\<rparr>)"
    by blast
  have "events s1 = events (seats_plus (- k) eid s)"
    unfolding s1 by (simp add: seats_plus_def)
  then have "events (snd (create_booking uid eid seats now s)) = events (seats_plus (- k) eid s)"
    by (simp add: c)
  then show ?thesis using k ev by blast
next
  case False
  obtain r s1 where c: "create_booking uid eid seats now s = (r, s1)" by force
  with False obtain err where r: "r = Inl err" by (cases r) auto
  have "events s1 = events s"
    using c r take_seats_cases[of "the seats" eid]
    by (auto simp: create_booking_def insert_booking_def Let_def
          split: option.splits if_splits list.splits prod.splits sum.splits)
  then show ?thesis by (simp add: c)
qed

lemma update_booking_events:
  "events (snd (update_booking uid bid seats s)) = events s
   \<or> (\<exists>k b bs e es. seats = Some k \<and> booking_by_id s bid uid = b # bs
        \<and> event_by_id s (b_event_id b) = e # es \<and> k - b_seats b \<le> e_available_seats e
        \<and> events (snd (update_booking uid bid seats s))
             = events (seats_plus (- (k - b_seats b)) (b_event_id b) s))"
proof (cases seats)
  case None
  then show ?thesis by (simp add: update_booking_def)
next
  case (Some k)
  show ?thesis
  proof (cases "booking_by_id s bid uid")
    case Nil
    then show ?thesis using Some by (simp add: update_booking_def)
  next
    case (Cons b bs)
    show ?thesis
    proof (cases "event_by_id s (b_event_id b)")
      case Nil
      then show ?thesis using Some Cons by (simp add: update_booking_def Let_def)
    next
      case (Cons e es)
      note ev = Cons
      show ?thesis
      proof (cases "0 < k \<and> k - b_seats b \<le> e_available_seats e")
        case False
        then show ?thesis using Some \<open>booking_by_id s bid uid = b # bs\<close> ev
          by (auto simp: update_booking_def Let_def)
      next
        case True
        show ?thesis
        proof (cases "set_booking_seats k bid s")
          case (Inl err)
          then show ?thesis using Some \<open>booking_by_id s bid uid = b # bs\<close> ev True
            by (simp add: update_booking_def Let_def)
        next
          case (Inr p)
          obtain rows s1 where p: "p = (rows, s1)" by force
          have s1: "s1 = s\<lparr>bookings := bookings s1\<rparr>"
            using Inr p by (auto simp: set_booking_seats_def split: if_splits)
          have e1: "events s1 = events s" by (subst s1) simp
          from take_seats_cases[of "k - b_seats b" "b_event_id b" s1]
          show ?thesis
          proof
            assume "take_seats (k - b_seats b) (b_event_id b) s1 = Inl NumericValueOutOfRange"
            then show ?thesis
              using Some \<open>booking_by_id s bid uid = b # bs\<close> ev True Inr p e1
              by (simp add: update_booking_def Let_def)
          next
            assume "take_seats (k - b_seats b) (b_event_id b) s1
                      = Inr (seats_plus (- (k - b_seats b)) (b_event_id b) s1)"
            then have "events (snd (update_booking uid bid seats s))
                = events (seats_plus (- (k - b_seats b)) (b_event_id b) s1)"
              using Some \<open>booking_by_id s bid uid = b # bs\<close> ev True Inr p
              by (simp add: update_booking_def Let_def)
            also have "\<dots> = events (seats_plus (- (k - b_seats b)) (b_event_id b) s)"
              by (simp add: seats_plus_def e1)
            finally show ?thesis
              using Some \<open>booking_by_id s bid uid = b # bs\<close> ev True by auto
          qed
        qed
      qed
    qed
  qed
qed

lemma cancel_booking_events:
  "events (snd (cancel_booking uid bid s)) = events s
   \<or> (\<exists>b bs. booking_by_id s bid uid = b # bs
        \<and> events (snd (cancel_booking uid bid s))
             = events (seats_plus (b_seats b) (b_event_id b) s))"
proof (cases "booking_by_id s bid uid")
  case Nil
  then show ?thesis by (simp add: cancel_booking_def)
next
  case (Cons b bs)
  let ?s1 = "delete_booking bid uid s"
  have e1: "events ?s1 = events s" by (simp add: delete_booking_def)
  from return_seats_cases[of "b_seats b" "b_event_id b" ?s1]
  show ?thesis
  proof
    assume "return_seats (b_seats b) (b_event_id b) ?s1 = Inl NumericValueOutOfRange"
    then show ?thesis using Cons e1 by (simp add: cancel_booking_def Let_def)
  next
    assume "return_seats (b_seats b) (b_event_id b) ?s1
              = Inr (seats_plus (b_seats b) (b_event_id b) ?s1)"
    then have "events (snd (cancel_booking uid bid s))
                = events (seats_plus (b_seats b) (b_event_id b) ?s1)"
      using Cons by (simp add: cancel_booking_def Let_def)
    also have "\<dots> = events (seats_plus (b_seats b) (b_event_id b) s)"
      by (simp add: seats_plus_def e1)
    finally show ?thesis using Cons by auto
  qed
qed

text \<open>
  Claim C2, amended. In a reachable state, let a booking operation (create, update or
  cancel) be served with no statement of another request in between. Every event that
  has \<open>available_seats \<ge> 0\<close> before the operation has \<open>available_seats \<ge> 0\<close> after it.
  Event creation and event update store the \<^verbatim>\<open>available_seats\<close> they are given,
  negative or not, and no booking operation repairs a negative value; and the handlers
  run without a transaction, so the statements of two requests can interleave.
\<close>

theorem booking_ops_keep_seats_nonneg:
  assumes "reachable s" and "is_booking_op r"
    and "event_seats s event_id = Some n" and "0 \<le> n"
  shows "\<exists>n'. event_seats (serve r s) event_id = Some n' \<and> 0 \<le> n'"
proof -
  have same: "events (serve r s) = events s \<Longrightarrow> ?thesis"
    using assms(3,4) event_seats_cong[of "serve r s" s event_id] by simp
  show ?thesis
  proof (cases r)
    case (CreateBooking uid eid seats now)
    from create_booking_events[of uid eid seats now s] show ?thesis
    proof (elim disjE exE conjE)
      assume "events (snd (create_booking uid eid seats now s)) = events s"
      then show ?thesis using same CreateBooking by simp
    next
      fix k e es
      assume ev: "event_by_id s eid = e # es" "k \<le> e_available_seats e"
        and st: "events (snd (create_booking uid eid seats now s))
                   = events (seats_plus (- k) eid s)"
      have "event_id = eid \<longrightarrow> 0 \<le> n + - k"
        using ev assms(3) by (auto simp: event_seats_def)
      from seats_plus_keeps[OF assms(3,4) this, of "serve r s"] st CreateBooking
      show ?thesis by simp
    qed
  next
    case (UpdateBooking uid bid seats)
    from update_booking_events[of uid bid seats s] show ?thesis
    proof (elim disjE exE conjE)
      assume "events (snd (update_booking uid bid seats s)) = events s"
      then show ?thesis using same UpdateBooking by simp
    next
      fix k b bs e es
      assume ev: "event_by_id s (b_event_id b) = e # es" "k - b_seats b \<le> e_available_seats e"
        and st: "events (snd (update_booking uid bid seats s))
                   = events (seats_plus (- (k - b_seats b)) (b_event_id b) s)"
      have "event_id = b_event_id b \<longrightarrow> 0 \<le> n + - (k - b_seats b)"
        using ev assms(3) by (auto simp: event_seats_def)
      from seats_plus_keeps[OF assms(3,4) this, of "serve r s"] st UpdateBooking
      show ?thesis by simp
    qed
  next
    case (CancelBooking uid bid)
    from cancel_booking_events[of uid bid s] show ?thesis
    proof (elim disjE exE conjE)
      assume "events (snd (cancel_booking uid bid s)) = events s"
      then show ?thesis using same CancelBooking by simp
    next
      fix b bs
      assume bk: "booking_by_id s bid uid = b # bs"
        and st: "events (snd (cancel_booking uid bid s))
                   = events (seats_plus (b_seats b) (b_event_id b) s)"
      have "b \<in> set (bookings s)"
        using filter_eq_ConsD[of "\<lambda>b. b_id b = bid \<and> b_user_id b = uid" "bookings s" b bs] bk
        by (simp add: booking_by_id_def)
      from reachable_booking(1)[OF assms(1) this]
      have "event_id = b_event_id b \<longrightarrow> 0 \<le> n + b_seats b"
        using assms(4) by simp
      from seats_plus_keeps[OF assms(3,4) this, of "serve r s"] st CancelBooking
      show ?thesis by simp
    qed
  qed (use assms(2) in simp_all)
qed

theorem booking_ops_keep_seats_nonneg_witness:
  "reachable demo_db \<and> is_booking_op (CancelBooking 2 1) \<and> event_seats demo_db 1 = Some 2
   \<and> (0::int) \<le> 2
   \<and> (\<exists>n'. event_seats (serve (CancelBooking 2 1) demo_db) 1 = Some n' \<and> 0 \<le> n')
   \<and> event_seats (serve (CancelBooking 2 1) demo_db) 1 = Some 5"
proof -
  have h2: "is_booking_op (CancelBooking 2 1)" by simp
  have h3: "event_seats demo_db 1 = Some 2"
    by (simp add: event_seats_def event_by_id_def demo_defs)
  have h4: "(0::int) \<le> 2" by simp
  have h5: "event_seats (serve (CancelBooking 2 1) demo_db) 1 = Some 5"
    by (simp add: event_seats_def demo_defs handler_defs)
  from booking_ops_keep_seats_nonneg[OF reachable_demo_db h2 h3 h4]
  show ?thesis using reachable_demo_db h2 h3 h5 by simp
qed

text \<open>
  For an event with negative seats the property fails: after Alice has set the seats
  of the concert to \<open>-5\<close>, Bob's cancellation of his three seats succeeds and leaves the
  event with \<open>-2\<close>.
\<close>

theorem seats_negative_after_cancel:
  "reachable (run negative_seats_requests empty_db)
   \<and> is_booking_op (last negative_seats_requests)
   \<and> fst (cancel_booking 2 1 (run (butlast negative_seats_requests) empty_db))
        = Inr ''Booking cancelled successfully''
   \<and> event_seats (run negative_seats_requests empty_db) 1 = Some (- 2)
   \<and> \<not> seats_nonneg (run negative_seats_requests empty_db)"
proof -
  have "run negative_seats_requests empty_db
          = serve (CancelBooking 2 1) (run (butlast negative_seats_requests) empty_db)"
    by (simp add: negative_seats_requests_def demo_requests_def)
  also have "\<dots> = demo_db\<lparr>events := [concert\<lparr>e_available_seats := - 2\<rparr>], bookings := []\<rparr>"
    unfolding neg_db_run by (simp add: demo_defs handler_defs Let_def)
  finally have r: "run negative_seats_requests empty_db =
     demo_db\<lparr>events := [concert\<lparr>e_available_seats := - 2\<rparr>], bookings := []\<rparr>" .
  have c: "fst (cancel_booking 2 1 neg_db) = Inr ''Booking cancelled successfully''"
    by (simp add: demo_defs handler_defs Let_def)
  have l: "is_booking_op (last negative_seats_requests)"
    by (simp add: negative_seats_requests_def)
  have e: "event_seats (demo_db\<lparr>events := [concert\<lparr>e_available_seats := - 2\<rparr>],
              bookings := []\<rparr>) 1 = Some (- 2)"
    by (simp add: event_seats_def event_by_id_def demo_defs)
  have n: "\<not> seats_nonneg (demo_db\<lparr>events := [concert\<lparr>e_available_seats := - 2\<rparr>],
              bookings := []\<rparr>)"
    by (simp add: seats_nonneg_def)
  show ?thesis
    using reachable_run[OF reachable_empty, of negative_seats_requests] c l e n
    by (simp add: r neg_db_run)
qed

lemma two_creates_reachable: "reachable_cfg two_creates"
proof -
  have a: "start (CreateBooking 1 1 (Some 2) 401) = Some (T_create_booking_1 1 1 2 401)"
    by simp
  have b: "start (CreateBooking 3 1 (Some 2) 400) = Some (T_create_booking_1 3 1 2 400)"
    by simp
  from reachable_cfg.arrive[OF reachable_cfg.arrive[OF demo_db_idle a] b]
  show ?thesis by (simp add: two_creates_def)
qed

lemma two_creates_schedule:
  "schedule reads_first two_creates =
     (demo_db\<lparr>events := [concert\<lparr>e_available_seats := - 2\<rparr>],
        bookings := [bobs_booking, carols_booking,
                     \<lparr>b_id = 3, b_event_id = 1, b_user_id = 1, b_seats = 2,
                        b_created_at = 401\<rparr>],
        bookings_id_seq := 3\<rparr>, [])"
  by (simp add: reads_first_def two_creates_def advance_def demo_defs handler_defs Let_def)

text \<open>
  For requests whose statements interleave the property fails as well: the concert
  has two seats, Carol and Alice each ask for two, both handlers read the event before
  either has written, both bookings are inserted and the event is left with \<open>-2\<close>
  seats.
\<close>

lemma interleaved_creates_oversell:
  "reachable_cfg two_creates
   \<and> event_seats (fst two_creates) 1 = Some 2
   \<and> snd (schedule reads_first two_creates) = []
   \<and> reachable (fst (schedule reads_first two_creates))
   \<and> bookings (fst (schedule reads_first two_creates)) =
        bookings (fst two_creates) @
        [carols_booking,
         \<lparr>b_id = 3, b_event_id = 1, b_user_id = 1, b_seats = 2, b_created_at = 401\<rparr>]
   \<and> event_seats (fst (schedule reads_first two_creates)) 1 = Some (- 2)"
proof -
  from reachable_schedule[OF two_creates_reachable, of reads_first]
  have "reachable (fst (schedule reads_first two_creates))"
    unfolding reachable_def by (metis prod.collapse)
  moreover have "event_seats (fst two_creates) 1 = Some 2"
    by (simp add: two_creates_def event_seats_def event_by_id_def demo_defs)
  moreover have "bookings (fst two_creates) = [bobs_booking]"
    by (simp add: two_creates_def demo_defs)
  moreover have "event_seats (fst (schedule reads_first two_creates)) 1 = Some (- 2)"
    by (simp add: two_creates_schedule event_seats_def event_by_id_def concert_def)
  ultimately show ?thesis
    using two_creates_reachable by (simp add: two_creates_schedule)
qed

section \<open>One booking per event and user\<close>

lemma insert_booking_duplicate:
  assumes "bookings_of s event_id user_id \<noteq> []"
  shows "fst (insert_booking event_id user_id (Some k) now s) = Inl UniqueViolation"
    and "bookings (snd (insert_booking event_id user_id seats now s)) = bookings s"
  using assms by (simp_all add: insert_booking_def Let_def split: option.splits)

lemma insert_booking_keeps_pairs:
  "one_booking_per_pair s \<Longrightarrow>
   one_booking_per_pair (snd (insert_booking event_id user_id seats now s))"
  by (cases seats)
     (auto simp: insert_booking_def Let_def one_booking_per_pair_def bookings_of_def
        filter_empty_conv)

text \<open>
  Claim C3, amended. In every reachable state no two booking rows have the same
  (event, user) pair. When the user already holds a booking on the event, a second
  create with \<open>seats > 0\<close> answers \<open>AlreadyBooked\<close>, and one with \<open>seats \<le> 0\<close> or without
  \<^verbatim>\<open>seats\<close> answers \<open>InvalidSeatCount\<close>; either way the store is unchanged. The
  constraint \<^verbatim>\<open>UNIQUE (event_id, user_id)\<close> does the same without the handler's check:
  the insert statement itself violates it and adds no row, and on any store with
  unique pairs an insert leaves the pairs unique.
\<close>

theorem one_booking_per_event_and_user:
  assumes "reachable s"
  shows "one_booking_per_pair s
    \<and> (bookings_of s event_id user_id \<noteq> [] \<longrightarrow>
         (0 < k \<longrightarrow> create_booking user_id event_id (Some k) now s = (Inl AlreadyBooked, s))
         \<and> (k \<le> 0 \<longrightarrow>
              create_booking user_id event_id (Some k) now s = (Inl InvalidSeatCount, s))
         \<and> create_booking user_id event_id None now s = (Inl InvalidSeatCount, s)
         \<and> fst (insert_booking event_id user_id (Some k) now s) = Inl UniqueViolation
         \<and> bookings (snd (insert_booking event_id user_id seats now s)) = bookings s)
    \<and> one_booking_per_pair (snd (insert_booking event_id user_id seats now s))"
proof -
  have wf: "wf_db s" using assms by (rule reachable_wf)
  then have pairs: "one_booking_per_pair s" by (simp add: wf_db_def bookings_ok_def)
  show ?thesis
  proof (intro conjI impI)
    show "one_booking_per_pair s" by (rule pairs)
    show "one_booking_per_pair (snd (insert_booking event_id user_id seats now s))"
      using pairs by (rule insert_booking_keeps_pairs)
  next
    assume "bookings_of s event_id user_id \<noteq> []" "0 < k"
    then show "create_booking user_id event_id (Some k) now s = (Inl AlreadyBooked, s)"
      by (simp add: create_booking_def AlreadyBooked_def)
  next
    assume "k \<le> 0"
    then show "create_booking user_id event_id (Some k) now s = (Inl InvalidSeatCount, s)"
      by (simp add: create_booking_def InvalidSeatCount_def)
  next
    show "create_booking user_id event_id None now s = (Inl InvalidSeatCount, s)"
      by (simp add: create_booking_def InvalidSeatCount_def)
  next
    assume dup: "bookings_of s event_id user_id \<noteq> []"
    show "fst (insert_booking event_id user_id (Some k) now s) = Inl UniqueViolation"
      using dup by (rule insert_booking_duplicate)
    show "bookings (snd (insert_booking event_id user_id seats now s)) = bookings s"
      using dup by (rule insert_booking_duplicate)
  qed
qed

theorem one_booking_per_event_and_user_witness:
  "reachable demo_db \<and> one_booking_per_pair demo_db \<and> bookings_of demo_db 1 2 \<noteq> []
   \<and> create_booking 2 1 (Some 1) 400 demo_db = (Inl AlreadyBooked, demo_db)
   \<and> create_booking 2 1 (Some 0) 400 demo_db = (Inl InvalidSeatCount, demo_db)
   \<and> fst (insert_booking 1 2 (Some 1) 400 demo_db) = Inl UniqueViolation
   \<and> bookings (snd (insert_booking 1 2 (Some 1) 400 demo_db)) = [bobs_booking]"
proof -
  have h: "bookings_of demo_db 1 2 \<noteq> []" by (simp add: bookings_of_def demo_defs)
  have b: "bookings demo_db = [bobs_booking]" by (simp add: demo_defs)
  note T = one_booking_per_event_and_user[OF reachable_demo_db, where event_id = 1
      and user_id = 2 and now = 400 and seats = "Some 1"]
  from T[where k = 1] T[where k = 0]
  show ?thesis using reachable_demo_db h by (simp add: b)
qed

text \<open>
  A second create does not always answer \<open>AlreadyBooked\<close>: Bob, who holds a booking on
  the concert, asks for zero seats and gets \<open>InvalidSeatCount\<close>.
\<close>

theorem second_create_invalid_seats:
  "reachable demo_db \<and> bookings_of demo_db 1 2 = [bobs_booking]
   \<and> create_booking 2 1 (Some 0) 400 demo_db = (Inl InvalidSeatCount, demo_db)
   \<and> InvalidSeatCount \<noteq> AlreadyBooked"
  using reachable_demo_db
  by (simp add: bookings_of_def create_booking_def InvalidSeatCount_def AlreadyBooked_def
        demo_defs)

section \<open>Deleting an event\<close>

text \<open>
  Claim C7. The claim says that a delete by someone who does not own the event fails
  and leaves the store unchanged. The handler deletes the bookings of the event before
  the statement that checks the owner: when Carol, who does not own the concert, asks to
  delete it, the answer is \<open>NotFoundOrForbidden\<close>, the event stays, and Bob's booking
  on it is gone.
\<close>

theorem delete_event_by_stranger_deletes_bookings:
  "events demo_db = [concert] \<and> e_id concert = 1 \<and> e_user_id concert = 1
   \<and> bookings demo_db = [bobs_booking] \<and> b_event_id bobs_booking = 1
   \<and> delete_event 3 1 demo_db = (Inl EventNotFoundOrForbidden, demo_db\<lparr>bookings := []\<rparr>)
   \<and> demo_db\<lparr>bookings := []\<rparr> \<noteq> demo_db"
  by (simp add: delete_event_def delete_bookings_of_event_def delete_events_def Let_def
        EventNotFoundOrForbidden_def demo_defs)

text \<open>
  The handler that deletes a room restricts its delete of bookings to the events of
  the requesting user: when it finds no such event, it answers 404 and has deleted
  nothing.
\<close>

lemma delete_room_not_found_unchanged:
  assumes "\<forall>e \<in> set (events s). \<not> (e_location e = room \<and> e_user_id e = uid)"
  shows "delete_room uid room s = (Inl (404, ''Room not found or not authorized''), s)"
proof -
  have none: "filter (\<lambda>e. e_location e = room \<and> e_user_id e = uid) (events s) = []"
    using assms by (simp add: filter_empty_conv)
  have all: "filter (\<lambda>e. \<not> (e_location e = room \<and> e_user_id e = uid)) (events s) = events s"
    using assms by (simp add: filter_id_conv)
  have "delete_bookings_of_room room uid s = s"
    by (simp add: delete_bookings_of_room_def none)
  moreover have "delete_events (\<lambda>e. e_location e = room \<and> e_user_id e = uid) s = (Inr [], s)"
    unfolding delete_events_def Let_def none all by simp
  ultimately show ?thesis
    by (simp add: delete_room_def Let_def)
qed

text \<open>
  When the delete succeeds, no row of the event is left and no booking refers to it.
\<close>

lemma delete_event_success:
  assumes "wf_db s" and "delete_event uid eid s = (Inr msg, s')"
  shows "event_by_id s' eid = [] \<and> (\<forall>b \<in> set (bookings s'). b_event_id b \<noteq> eid)"
proof -
  define s1 where "s1 = delete_bookings_of_event eid s"
  let ?P = "\<lambda>e. e_id e = eid \<and> e_user_id e = uid"
  have nb: "\<forall>b \<in> set (bookings s1). b_event_id b \<noteq> eid"
    by (simp add: s1_def delete_bookings_of_event_def)
  then have nofk: "\<not> (\<exists>b \<in> set (bookings s1). b_event_id b \<in> e_id ` set (filter ?P (events s1)))"
    by auto
  have de: "delete_events ?P s1 =
      (Inr (filter ?P (events s1)), s1\<lparr>events := filter (\<lambda>e. \<not> ?P e) (events s1)\<rparr>)"
    using nofk unfolding delete_events_def Let_def by (simp only: if_False)
  have unfolded: "delete_event uid eid s =
      (case filter ?P (events s1) of
         [] \<Rightarrow> (Inl (404, ''Event not found or not authorized''),
                s1\<lparr>events := filter (\<lambda>e. \<not> ?P e) (events s1)\<rparr>)
       | _ # _ \<Rightarrow> (Inr ''Event and associated bookings deleted successfully'',
                s1\<lparr>events := filter (\<lambda>e. \<not> ?P e) (events s1)\<rparr>))"
    unfolding delete_event_def Let_def s1_def[symmetric] de by (simp split: list.splits)
  obtain e es where rows: "filter ?P (events s1) = e # es"
    using assms(2) unfolding unfolded by (cases "filter ?P (events s1)") simp_all
  have s': "s' = s1\<lparr>events := filter (\<lambda>e. \<not> ?P e) (events s1)\<rparr>"
    using assms(2) unfolding unfolded rows by simp
  have ev: "events s1 = events s" by (simp add: s1_def delete_bookings_of_event_def)
  have e: "e \<in> set (events s)" "e_id e = eid" "e_user_id e = uid"
    using filter_eq_ConsD[OF rows] by (simp_all add: ev)
  have "distinct (map e_id (events s))" using assms(1) by (simp add: wf_defs)
  then have "\<forall>x \<in> set (events s). e_id x = eid \<longrightarrow> x = e"
    using e by (metis distinct_map inj_onD)
  then have only: "\<And>x. x \<in> set (events s) \<Longrightarrow> e_id x = eid \<Longrightarrow> x = e" by blast
  have "e_id x \<noteq> eid" if "x \<in> set (events s')" for x
  proof
    assume id: "e_id x = eid"
    from that have x: "x \<in> set (events s)" "\<not> ?P x" by (simp_all add: s' ev)
    from only[OF x(1) id] x(2) e(2,3) show False by simp
  qed
  then have "event_by_id s' eid = []"
    by (simp add: event_by_id_def filter_empty_conv)
  moreover have "bookings s' = bookings s1" by (simp add: s')
  ultimately show ?thesis using nb by simp
qed

section \<open>The two variants of booking creation\<close>

text \<open>
  Claim C8, amended. For every request with \<open>seats > 0\<close> and every store, the
  \<^verbatim>\<open>POST /api/bookings\<close> handlers of the two variants give the same answer and leave
  the same store. (For other values of \<^verbatim>\<open>seats\<close> the later variant answers
  \<open>InvalidSeatCount\<close>; the simpler variant has no such check.)
\<close>

theorem create_booking_variants_agree:
  "0 < k \<Longrightarrow>
   create_booking_simple user_id event_id (Some k) now s =
   create_booking user_id event_id (Some k) now s"
  by (simp add: create_booking_def create_booking_simple_def split: list.splits prod.splits
        sum.splits)

theorem create_booking_variants_agree_witness:
  "(0::int) < 2
   \<and> create_booking_simple 3 1 (Some 2) 400 demo_db = create_booking 3 1 (Some 2) 400 demo_db
   \<and> fst (create_booking 3 1 (Some 2) 400 demo_db) = Inr carols_booking"
proof -
  have h: "(0::int) < 2" by simp
  from create_booking_variants_agree[OF h, of 3 1 400 demo_db]
  show ?thesis
    by (simp add: create_booking_def insert_booking_def bookings_of_def event_by_id_def
          take_seats_def in_int4_def Let_def demo_defs)
qed

text \<open>
  The variants differ on a request for minus one seat: the later one answers
  \<open>InvalidSeatCount\<close>, the simpler one inserts the booking and raises the available
  seats of the concert from two to three.
\<close>

theorem create_booking_variants_differ:
  "create_booking 3 1 (Some (- 1)) 400 demo_db = (Inl InvalidSeatCount, demo_db)
   \<and> fst (create_booking_simple 3 1 (Some (- 1)) 400 demo_db) =
        Inr \<lparr>b_id = 2, b_event_id = 1, b_user_id = 3, b_seats = - 1, b_created_at = 400\<rparr>
   \<and> event_seats (snd (create_booking_simple 3 1 (Some (- 1)) 400 demo_db)) 1 = Some 3
   \<and> event_seats demo_db 1 = Some 2"
  by (simp add: create_booking_def create_booking_simple_def insert_booking_def bookings_of_def
        event_by_id_def event_seats_def take_seats_def seats_plus_def in_int4_def Let_def
        InvalidSeatCount_def demo_defs)

section \<open>Login\<close>

lemma users_by_email_single:
  assumes "wf_db s" "u \<in> set (users s)"
  shows "filter (\<lambda>x. u_email x = u_email u) (users s) = [u]"
proof -
  have "distinct (map u_email (users s))" using assms(1) by (simp add: wf_defs)
  from filter_key_singleton[OF this assms(2), of "\<lambda>x. True"]
  show ?thesis by simp
qed

text \<open>
  Claim C9. In a store that satisfies the schema's constraints, a login with the email
  of a stored user and a password that \<^verbatim>\<open>bcrypt.compare\<close> accepts against the stored
  digest answers with a token whose claims decode to that user's id and email (and
  which \<^verbatim>\<open>authenticateToken\<close> accepts, with these claims, for the next hour). A login
  with an email no user has and a login with the email of a stored user but a password
  that does not match get the same answer, \<open>InvalidCredentials\<close>.
\<close>

theorem login_token_and_errors:
  "(wf_db s \<longrightarrow> u \<in> set (users s) \<longrightarrow> bcrypt_compare password (u_password u) \<longrightarrow>
      (\<exists>token. login (u_email u) password secret now s
                  = Inr (token, u_id u, u_name u, u_email u)
         \<and> jwt_id (jwt_decode token) = u_id u
         \<and> jwt_email (jwt_decode token) = u_email u
         \<and> (now' < now + 3600 \<longrightarrow>
              authenticateToken (Some token) secret now' = Inr (jwt_decode token))))
   \<and> (email1 \<notin> u_email ` set (users s1) \<longrightarrow>
       wf_db s2 \<longrightarrow> u2 \<in> set (users s2) \<longrightarrow> \<not> bcrypt_compare password2 (u_password u2) \<longrightarrow>
        login email1 password1 secret1 now1 s1 = Inl InvalidCredentials
        \<and> login (u_email u2) password2 secret2 now2 s2 = Inl InvalidCredentials
        \<and> login email1 password1 secret1 now1 s1 = login (u_email u2) password2 secret2 now2 s2)"
proof (intro conjI impI)
  assume wf: "wf_db s" and u: "u \<in> set (users s)"
    and ok: "bcrypt_compare password (u_password u)"
  let ?token = "jwt_sign (u_id u) (u_email u) secret now"
  have "login (u_email u) password secret now s = Inr (?token, u_id u, u_name u, u_email u)"
    using ok by (simp add: login_def users_by_email_single[OF wf u])
  moreover have "jwt_id (jwt_decode ?token) = u_id u" "jwt_email (jwt_decode ?token) = u_email u"
    by (simp_all add: jwt_sign_def)
  moreover have "now' < now + 3600 \<longrightarrow>
      authenticateToken (Some ?token) secret now' = Inr (jwt_decode ?token)"
    by (simp add: authenticateToken_def jwt_sign_def)
  ultimately show "\<exists>token. login (u_email u) password secret now s
                  = Inr (token, u_id u, u_name u, u_email u)
         \<and> jwt_id (jwt_decode token) = u_id u
         \<and> jwt_email (jwt_decode token) = u_email u
         \<and> (now' < now + 3600 \<longrightarrow>
              authenticateToken (Some token) secret now' = Inr (jwt_decode token))"
    by blast
next
  assume unknown: "email1 \<notin> u_email ` set (users s1)"
    and wf: "wf_db s2" and u: "u2 \<in> set (users s2)"
    and bad: "\<not> bcrypt_compare password2 (u_password u2)"
  have "\<forall>x \<in> set (users s1). u_email x \<noteq> email1" using unknown by (metis imageI)
  then have none: "filter (\<lambda>x. u_email x = email1) (users s1) = []"
    by (simp add: filter_empty_conv)
  show a: "login email1 password1 secret1 now1 s1 = Inl InvalidCredentials"
    by (simp add: login_def none InvalidCredentials_def)
  show b: "login (u_email u2) password2 secret2 now2 s2 = Inl InvalidCredentials"
    using bad by (simp add: login_def users_by_email_single[OF wf u] InvalidCredentials_def)
  show "login email1 password1 secret1 now1 s1 = login (u_email u2) password2 secret2 now2 s2"
    by (simp only: a b)
qed

theorem login_token_and_errors_witness:
  "wf_db demo_db \<and> bob \<in> set (users demo_db) \<and> bcrypt_compare ''builder'' (u_password bob)
   \<and> login ''bob@x.org'' ''builder'' ''key'' 1000 demo_db
        = Inr (jwt_sign 2 ''bob@x.org'' ''key'' 1000, 2, ''Bob'', ''bob@x.org'')
   \<and> authenticateToken (Some (jwt_sign 2 ''bob@x.org'' ''key'' 1000)) ''key'' 4599
        = Inr \<lparr>jwt_id = 2, jwt_email = ''bob@x.org'', jwt_iat = 1000, jwt_exp = 4600\<rparr>
   \<and> ''dave@x.org'' \<notin> u_email ` set (users demo_db)
   \<and> \<not> bcrypt_compare ''guess'' (u_password bob)
   \<and> login ''dave@x.org'' ''guess'' ''key'' 1000 demo_db = Inl InvalidCredentials
   \<and> login ''bob@x.org'' ''guess'' ''key'' 1000 demo_db = Inl InvalidCredentials"
proof -
  have h2: "bob \<in> set (users demo_db)" by (simp add: demo_defs)
  have h3: "bcrypt_compare ''builder'' (u_password bob)" by (simp add: demo_defs)
  have h4: "''dave@x.org'' \<notin> u_email ` set (users demo_db)" by (simp add: demo_defs)
  have h5: "\<not> bcrypt_compare ''guess'' (u_password bob)" by (simp add: demo_defs)
  have h6: "(4599::nat) < 1000 + 3600" by simp
  have b: "u_id bob = 2" "u_name bob = ''Bob''" "u_email bob = ''bob@x.org''"
    by (simp_all add: demo_defs)
  note A = login_token_and_errors[where s = demo_db and u = bob and password = "''builder''"
      and secret = "''key''" and now = 1000 and now' = 4599, THEN conjunct1, rule_format,
      OF wf_demo_db h2 h3]
  note B = login_token_and_errors[where ?s1.0 = demo_db and ?s2.0 = demo_db and ?u2.0 = bob
      and ?email1.0 = "''dave@x.org''" and ?password1.0 = "''guess''"
      and ?password2.0 = "''guess''" and ?secret1.0 = "''key''" and ?secret2.0 = "''key''"
      and ?now1.0 = 1000 and ?now2.0 = 1000, THEN conjunct2, rule_format,
      OF h4 wf_demo_db h2 h5]
  from A obtain token where
    t: "login (u_email bob) ''builder'' ''key'' 1000 demo_db
          = Inr (token, u_id bob, u_name bob, u_email bob)"
    and v: "authenticateToken (Some token) ''key'' 4599 = Inr (jwt_decode token)"
    using h6 by auto
  have tok: "token = jwt_sign 2 ''bob@x.org'' ''key'' 1000"
    using t by (simp add: login_def demo_defs)
  show ?thesis using t v B wf_demo_db h2 h3 h4 h5
    by (simp add: b tok) (simp add: jwt_sign_def)
qed

section \<open>Profile update without a password\<close>

lemma update_user_no_password:
  assumes "varchar100 name = Some name'" "varchar100 email = Some email'"
  shows "update_user name email None uid s =
     (if (\<exists>u \<in> set (users s). u_id u = uid)
          \<and> (\<exists>u \<in> set (users s). u_id u \<noteq> uid \<and> u_email u = email')
        then (Inl UniqueViolation, s)
      else (Inr (map (\<lambda>u. u\<lparr>u_name := name', u_email := email'\<rparr>)
                     (filter (\<lambda>u. u_id u = uid) (users s))),
            s\<lparr>users := map (\<lambda>u. if u_id u = uid then u\<lparr>u_name := name', u_email := email'\<rparr>
                                   else u) (users s)\<rparr>))"
  using assms by (simp add: update_user_def set_profile_def)

lemma update_user_too_long:
  assumes "varchar100 name = None \<or> varchar100 email = None"
  shows "update_user name email h uid s = (Inl StringDataRightTruncation, s)"
  using assms by (auto simp: update_user_def split: option.splits)

lemma update_user_frame:
  assumes "update_user name email None uid s = (r, s1)"
  shows "map u_password (users s1) = map u_password (users s)"
    and "filter (\<lambda>u. u_id u \<noteq> uid) (users s1) = filter (\<lambda>u. u_id u \<noteq> uid) (users s)"
    and "events s1 = events s" and "bookings s1 = bookings s"
proof -
  have pw: "map u_password (map (\<lambda>u. if u_id u = uid then u\<lparr>u_name := a, u_email := b\<rparr>
               else u) (users s)) = map u_password (users s)" for a b
    by (induction "users s") (simp_all add: comp_def)
  have others: "filter (\<lambda>u. u_id u \<noteq> uid)
                  (map (\<lambda>u. if u_id u = uid then u\<lparr>u_name := a, u_email := b\<rparr> else u) (users s))
                = filter (\<lambda>u. u_id u \<noteq> uid) (users s)" for a b
  proof -
    let ?f = "\<lambda>u. if u_id u = uid then u\<lparr>u_name := a, u_email := b\<rparr> else u"
    have "filter (\<lambda>u. u_id u \<noteq> uid) (map ?f (users s)) =
          map ?f (filter (\<lambda>u. u_id u \<noteq> uid) (users s))"
      by (rule filter_map_commute) simp
    also have "\<dots> = filter (\<lambda>u. u_id u \<noteq> uid) (users s)"
      by (rule map_if_filter_other) simp
    finally show ?thesis .
  qed
  consider (long) "varchar100 name = None \<or> varchar100 email = None"
    | (fit) a b where "varchar100 name = Some a" "varchar100 email = Some b"
    by (cases "varchar100 name"; cases "varchar100 email") auto
  then have "s1 = s \<or> (\<exists>a b. s1 = s\<lparr>users := map (\<lambda>u. if u_id u = uid
                 then u\<lparr>u_name := a, u_email := b\<rparr> else u) (users s)\<rparr>)"
  proof cases
    case long
    from update_user_too_long[OF this, of None uid s] assms show ?thesis by simp
  next
    case fit
    from update_user_no_password[OF this, of uid s] assms show ?thesis
      by (auto split: if_splits)
  qed
  then show "map u_password (users s1) = map u_password (users s)"
    and "filter (\<lambda>u. u_id u \<noteq> uid) (users s1) = filter (\<lambda>u. u_id u \<noteq> uid) (users s)"
    and "events s1 = events s" and "bookings s1 = bookings s"
    using pw others by auto
qed

lemma update_profile_state:
  "snd (update_profile user_id name email None salt s)
     = snd (update_user name email None user_id s)"
  by (simp add: update_profile_def split: prod.splits sum.splits list.splits)

text \<open>
  Claim C10, amended. A \<^verbatim>\<open>PUT /api/profile\<close> request with a name and an email but no
  password never changes a stored password digest, a row of another user, an event or
  a booking. When the name and the email fit their columns (\<^verbatim>\<open>VARCHAR(100)\<close>: at most
  100 characters, or spaces only beyond the first 100, which are cut): if the user's
  row exists and no other user holds the email, the request succeeds and sets the
  user's name and email to the values supplied; if another user holds the email it
  answers 400 (email already exists), and if the user has no row it answers 404, in
  both cases with the store unchanged. When the name or the email does not fit, the
  answer is 500 and the store is unchanged.
\<close>

theorem update_profile_without_password:
  "(varchar100 name = Some name' \<and> varchar100 email = Some email' \<longrightarrow>
      ((\<exists>u \<in> set (users s). u_id u = user_id)
         \<and> \<not> (\<exists>u \<in> set (users s). u_id u \<noteq> user_id \<and> u_email u = email') \<longrightarrow>
         update_profile user_id name email None salt s =
           (Inr (user_id, name', email'),
            s\<lparr>users := map (\<lambda>u. if u_id u = user_id then u\<lparr>u_name := name', u_email := email'\<rparr>
                                 else u) (users s)\<rparr>))
      \<and> ((\<exists>u \<in> set (users s). u_id u = user_id)
         \<and> (\<exists>u \<in> set (users s). u_id u \<noteq> user_id \<and> u_email u = email') \<longrightarrow>
         update_profile user_id name email None salt s = (Inl (400, ''Email already exists''), s))
      \<and> (\<not> (\<exists>u \<in> set (users s). u_id u = user_id) \<longrightarrow>
         update_profile user_id name email None salt s = (Inl (404, ''User not found''), s)))
   \<and> (varchar100 name = None \<or> varchar100 email = None \<longrightarrow>
        update_profile user_id name email None salt s
          = (Inl (500, ''Failed to update profile''), s))
   \<and> (length name \<le> 100 \<longrightarrow> varchar100 name = Some name)
   \<and> (length email \<le> 100 \<longrightarrow> varchar100 email = Some email)
   \<and> map u_password (users (snd (update_profile user_id name email None salt s)))
        = map u_password (users s)
   \<and> filter (\<lambda>u. u_id u \<noteq> user_id) (users (snd (update_profile user_id name email None salt s)))
        = filter (\<lambda>u. u_id u \<noteq> user_id) (users s)
   \<and> events (snd (update_profile user_id name email None salt s)) = events s
   \<and> bookings (snd (update_profile user_id name email None salt s)) = bookings s"
proof -
  obtain r s1 where uu: "update_user name email None user_id s = (r, s1)" by force
  note frame = update_user_frame[OF uu]
  have st: "snd (update_profile user_id name email None salt s) = s1"
    by (simp add: update_profile_state uu)
  have long: "update_profile user_id name email None salt s
          = (Inl (500, ''Failed to update profile''), s)"
    if "varchar100 name = None \<or> varchar100 email = None"
    using update_user_too_long[OF that, of None user_id s] by (simp add: update_profile_def)
  have fit: "((\<exists>u \<in> set (users s). u_id u = user_id)
         \<and> \<not> (\<exists>u \<in> set (users s). u_id u \<noteq> user_id \<and> u_email u = email') \<longrightarrow>
         update_profile user_id name email None salt s =
           (Inr (user_id, name', email'),
            s\<lparr>users := map (\<lambda>u. if u_id u = user_id then u\<lparr>u_name := name', u_email := email'\<rparr>
                                 else u) (users s)\<rparr>))
      \<and> ((\<exists>u \<in> set (users s). u_id u = user_id)
         \<and> (\<exists>u \<in> set (users s). u_id u \<noteq> user_id \<and> u_email u = email') \<longrightarrow>
         update_profile user_id name email None salt s = (Inl (400, ''Email already exists''), s))
      \<and> (\<not> (\<exists>u \<in> set (users s). u_id u = user_id) \<longrightarrow>
         update_profile user_id name email None salt s = (Inl (404, ''User not found''), s))"
    if v: "varchar100 name = Some name'" "varchar100 email = Some email'"
  proof -
    note up = update_user_no_password[OF v]
    let ?f = "\<lambda>u. if u_id u = user_id then u\<lparr>u_name := name', u_email := email'\<rparr> else u"
    consider (ok) "(\<exists>u \<in> set (users s). u_id u = user_id)"
          "\<not> (\<exists>u \<in> set (users s). u_id u \<noteq> user_id \<and> u_email u = email')"
      | (taken) "(\<exists>u \<in> set (users s). u_id u = user_id)"
          "(\<exists>u \<in> set (users s). u_id u \<noteq> user_id \<and> u_email u = email')"
      | (missing) "\<not> (\<exists>u \<in> set (users s). u_id u = user_id)"
      by blast
    then show ?thesis
    proof cases
      case ok
      then obtain r rs where rows: "filter (\<lambda>u. u_id u = user_id) (users s) = r # rs"
        by (cases "filter (\<lambda>u. u_id u = user_id) (users s)") (auto simp: filter_empty_conv)
      then have "u_id r = user_id" using filter_eq_ConsD[OF rows] by simp
      then have "update_profile user_id name email None salt s
                   = (Inr (user_id, name', email'), s\<lparr>users := map ?f (users s)\<rparr>)"
        using ok by (simp add: update_profile_def up rows)
      then show ?thesis using ok by simp
    next
      case taken
      then have "update_profile user_id name email None salt s
                   = (Inl (400, ''Email already exists''), s)"
        by (simp add: update_profile_def up)
      then show ?thesis using taken by simp
    next
      case missing
      then have none: "filter (\<lambda>u. u_id u = user_id) (users s) = []"
        by (simp add: filter_empty_conv)
      have "map ?f (users s) = users s" using missing by (simp add: map_idI)
      then have "update_profile user_id name email None salt s
                   = (Inl (404, ''User not found''), s)"
        using missing by (simp add: update_profile_def up none)
      then show ?thesis using missing by simp
    qed
  qed
  show ?thesis
    unfolding st
    using fit long frame by (simp add: varchar100_def)
qed

theorem update_profile_without_password_witness:
  "varchar100 ''Robert'' = Some ''Robert'' \<and> varchar100 ''rob@x.org'' = Some ''rob@x.org''
   \<and> varchar100 ''alice@x.org'' = Some ''alice@x.org''
   \<and> update_profile 2 ''Robert'' ''rob@x.org'' None 0 demo_db =
     (Inr (2, ''Robert'', ''rob@x.org''),
      demo_db\<lparr>users := [alice, bob\<lparr>u_name := ''Robert'', u_email := ''rob@x.org''\<rparr>, carol]\<rparr>)
   \<and> u_password (bob\<lparr>u_name := ''Robert'', u_email := ''rob@x.org''\<rparr>) = u_password bob
   \<and> update_profile 2 ''Robert'' ''alice@x.org'' None 0 demo_db
        = (Inl (400, ''Email already exists''), demo_db)
   \<and> update_profile 9 ''Robert'' ''rob@x.org'' None 0 demo_db
        = (Inl (404, ''User not found''), demo_db)
   \<and> varchar100 (replicate 101 (CHR ''x'')) = None
   \<and> update_profile 2 (replicate 101 (CHR ''x'')) ''rob@x.org'' None 0 demo_db
        = (Inl (500, ''Failed to update profile''), demo_db)"
proof -
  have v: "varchar100 ''Robert'' = Some ''Robert'' \<and> varchar100 ''rob@x.org'' = Some ''rob@x.org''"
    "varchar100 ''Robert'' = Some ''Robert''
       \<and> varchar100 ''alice@x.org'' = Some ''alice@x.org''"
    by (simp_all add: varchar100_def)
  have w: "varchar100 (replicate 101 (CHR ''x'')) = None"
    by (simp add: varchar100_def)
  then have w': "varchar100 (replicate 101 (CHR ''x'')) = None \<or> varchar100 ''rob@x.org'' = None"
    by simp
  have h1: "(\<exists>u \<in> set (users demo_db). u_id u = 2)
      \<and> \<not> (\<exists>u \<in> set (users demo_db). u_id u \<noteq> 2 \<and> u_email u = ''rob@x.org'')"
    by (simp add: demo_defs)
  have h2: "(\<exists>u \<in> set (users demo_db). u_id u = 2)
      \<and> (\<exists>u \<in> set (users demo_db). u_id u \<noteq> 2 \<and> u_email u = ''alice@x.org'')"
    by (simp add: demo_defs)
  have h3: "\<not> (\<exists>u \<in> set (users demo_db). u_id u = 9)" by (simp add: demo_defs)
  note T = update_profile_without_password[where s = demo_db and salt = 0]
  note A = T[where user_id = 2 and name = "''Robert''" and name' = "''Robert''"
      and email = "''rob@x.org''" and email' = "''rob@x.org''",
      THEN conjunct1, THEN mp, OF v(1), THEN conjunct1, THEN mp, OF h1]
  note B = T[where user_id = 2 and name = "''Robert''" and name' = "''Robert''"
      and email = "''alice@x.org''" and email' = "''alice@x.org''",
      THEN conjunct1, THEN mp, OF v(2), THEN conjunct2, THEN conjunct1, THEN mp, OF h2]
  note C = T[where user_id = 9 and name = "''Robert''" and name' = "''Robert''"
      and email = "''rob@x.org''" and email' = "''rob@x.org''",
      THEN conjunct1, THEN mp, OF v(1), THEN conjunct2, THEN conjunct2, THEN mp, OF h3]
  note D = T[where user_id = 2 and name = "replicate 101 (CHR ''x'')"
      and email = "''rob@x.org''",
      THEN conjunct2, THEN conjunct1, THEN mp, OF w']
  have u: "map (\<lambda>u. if u_id u = 2 then u\<lparr>u_name := ''Robert'', u_email := ''rob@x.org''\<rparr>
                     else u) (users demo_db)
           = [alice, bob\<lparr>u_name := ''Robert'', u_email := ''rob@x.org''\<rparr>, carol]"
    by (simp add: demo_defs)
  show ?thesis using A B C D v w by (simp add: u)
qed

text \<open>
  The name and email are not always set: Bob asks for the name Robert and Alice's
  email, the answer is 400 and his row keeps its name and email.
\<close>

theorem update_profile_email_taken:
  "bob \<in> set (users demo_db) \<and> u_id bob = 2 \<and> u_name bob = ''Bob''
   \<and> u_email bob = ''bob@x.org''
   \<and> update_profile 2 ''Robert'' ''alice@x.org'' None 0 demo_db
        = (Inl (400, ''Email already exists''), demo_db)"
  by (simp add: update_profile_def update_user_def varchar100_def demo_defs)

end
